theory Spec2Isabelle
  imports Complex_Main
begin

section \<open>Python errors and results\<close>

text \<open>
  Every exception the modelled code can raise is a constructor of \<open>py_error\<close>; a fallible
  operation returns \<open>py_error + 'a\<close>, with \<open>Inl\<close> for the raised exception.
\<close>

datatype py_error =
    IndexError
  | ZeroDivisionError
  | ValueError
  | TypeError
  | NameError
  | AssertionError
  | RuntimeError
  | WeightMismatch
  | AttributeError
  | StructuralNotFound
  | InvalidAdapterState

definition and_then :: "py_error + 'a \<Rightarrow> ('a \<Rightarrow> py_error + 'b) \<Rightarrow> py_error + 'b" where
  "and_then m f = (case m of Inl e \<Rightarrow> Inl e | Inr v \<Rightarrow> f v)"


section \<open>The DDIM scheduler (schedulers/ddim.py)\<close>

text \<open>
  The fields of the scheduler that \<open>DDIM\<close> reads. \<open>cumulative_scale_factors\<close> is computed by
  the base class \<open>Scheduler\<close>, which is not part of the sources at hand: it is a parameter
  here, a one-dimensional tensor of reals. Floating-point numbers are idealised as reals.
\<close>

record scheduler =
  num_inference_steps :: int
  num_train_timesteps :: int
  cumulative_scale_factors :: "real list"

record ddim = scheduler +
  timesteps :: "int list"

text \<open>\<open>arange(start=0, end=n, step=1)\<close>: the integers \<open>0, ..., n - 1\<close>, empty when \<open>n \<le> 0\<close>.\<close>

definition arange :: "int \<Rightarrow> int list" where
  "arange n = [0..n - 1]"

text \<open>\<open>DDIM._generate_timesteps\<close>. Python's \<open>//\<close> is floor division, as \<open>div\<close> on \<open>int\<close> is,
  and raises \<open>ZeroDivisionError\<close> on a zero divisor.\<close>

definition generate_timesteps :: "'a scheduler_scheme \<Rightarrow> py_error + int list" where
  "generate_timesteps self =
     (if num_inference_steps self = 0 then Inl ZeroDivisionError
      else
        let step_ratio = num_train_timesteps self div num_inference_steps self;
            timesteps = map (\<lambda>k. k * step_ratio + 1) (arange (num_inference_steps self))
        in Inr (rev timesteps))"

text \<open>\<open>DDIM.__init__\<close>: the base class fills the scheduler fields, then the timesteps are
  generated.\<close>

definition ddim_init :: "int \<Rightarrow> int \<Rightarrow> real list \<Rightarrow> py_error + ddim" where
  "ddim_init n_inference n_train csf =
     (let base = \<lparr>num_inference_steps = n_inference, num_train_timesteps = n_train,
                  cumulative_scale_factors = csf\<rparr>
      in and_then (generate_timesteps base)
           (\<lambda>ts. Inr (scheduler.extend base (ddim.fields ts))))"





section \<open>Loading the weights in IPAdapter.__init__ (image_prompt.py)\<close>

text \<open>
  A weight map is a dictionary from dotted keys to tensors, in insertion order. Of a
  tensor only the shape is kept: the numbers play no part in whether loading fails.
\<close>

type_synonym shape = "nat list"
type_synonym state_dict = "(string \<times> shape) list"

text \<open>\<open>str.startswith\<close>, the slice \<open>k[len(prefix):]\<close>, and the comprehension or loop that
  keeps the entries under a prefix with the prefix removed. (\<open>removeprefix\<close> is applied
  only to keys that start with the prefix, where it is the slice.)\<close>

definition startswith :: "string \<Rightarrow> string \<Rightarrow> bool" where
  "startswith k pre \<longleftrightarrow> take (length pre) k = pre"

definition under_prefix :: "string \<Rightarrow> state_dict \<Rightarrow> state_dict" where
  "under_prefix pre weights =
     map (\<lambda>(k, v). (drop (length pre) k, v)) (filter (\<lambda>(k, v). startswith k pre) weights)"

text \<open>The format \<open>{i:03d}\<close>: the decimal digits of \<open>i\<close>, padded with zeros on the left to
  three characters.\<close>

fun decimal :: "nat \<Rightarrow> string" where
  "decimal n = (if n < 10 then [''0123456789'' ! n]
                else decimal (n div 10) @ [''0123456789'' ! (n mod 10)])"

definition format_03d :: "nat \<Rightarrow> string" where
  "format_03d i = replicate (3 - length (decimal i)) (CHR ''0'') @ decimal i"

text \<open>The keys of the parameters that the supplied entries leave out, the supplied keys
  that name no parameter, and whether a supplied tensor has another shape than the
  parameter of its key.\<close>

definition missing_keys :: "state_dict \<Rightarrow> state_dict \<Rightarrow> string list" where
  "missing_keys params supplied = filter (\<lambda>k. k \<notin> set (map fst supplied)) (map fst params)"

definition unexpected_keys :: "state_dict \<Rightarrow> state_dict \<Rightarrow> string list" where
  "unexpected_keys params supplied = filter (\<lambda>k. k \<notin> set (map fst params)) (map fst supplied)"

definition unmatched :: "state_dict \<Rightarrow> state_dict \<Rightarrow> bool" where
  "unmatched params supplied \<longleftrightarrow>
     missing_keys params supplied \<noteq> [] \<or> unexpected_keys params supplied \<noteq> []"

definition size_mismatch :: "state_dict \<Rightarrow> state_dict \<Rightarrow> bool" where
  "size_mismatch params supplied \<longleftrightarrow>
     list_ex (\<lambda>(k, v). case map_of params k of None \<Rightarrow> False | Some v' \<Rightarrow> v' \<noteq> v) supplied"

text \<open>
  Modelled from the spec: \<open>load_state_dict\<close>, a method of \<open>torch.nn.Module\<close> and not among
  the sources; it is the Weight Loader of the spec. The supplied entries are applied
  "onto the submodule's parameters by exact dotted-path match. If strict, any unmatched
  required parameter or any leftover unmatched supplied key is a fatal condition; if not
  strict, mismatches are tolerated". A supplied tensor whose shape differs from the
  parameter of its key is fatal in both modes. The result is the list of keys that were
  loaded.
\<close>

definition load_state_dict :: "state_dict \<Rightarrow> state_dict \<Rightarrow> bool \<Rightarrow> py_error + string list" where
  "load_state_dict params supplied strict =
     (if size_mismatch params supplied \<or> (strict \<and> unmatched params supplied)
      then Inl WeightMismatch
      else Inr (filter (\<lambda>k. k \<in> set (map fst params)) (map fst supplied)))"

text \<open>The modules that \<open>IPAdapter.__init__\<close> loads into, each by the keys and shapes of its
  parameters: the image projection, the sub-adapters in their order, and the
  pooled-embedding projector.\<close>

record ip_parameters =
  image_proj_params :: state_dict
  sub_adapters_params :: "state_dict list"
  pooled_text_embedding_proj_params :: state_dict

text \<open>The loop \<open>for i, cross_attn in enumerate(self.sub_adapters)\<close>, which loads every
  block with \<open>strict=False\<close>.\<close>

fun load_sub_adapters :: "nat \<Rightarrow> state_dict list \<Rightarrow> state_dict \<Rightarrow> py_error + unit" where
  "load_sub_adapters i [] weights = Inr ()"
| "load_sub_adapters i (cross_attn # rest) weights =
     and_then (load_state_dict cross_attn
                 (under_prefix (''ip_adapter.'' @ format_03d i @ ''.'') weights) False)
       (\<lambda>loaded. load_sub_adapters (Suc i) rest weights)"

text \<open>The block \<open>if weights is not None\<close> of \<open>IPAdapter.__init__\<close>. An exception of the
  first load is caught and printed; the result is the list of what was printed.\<close>

definition IPAdapter_init_weights ::
  "ip_parameters \<Rightarrow> state_dict option \<Rightarrow> bool \<Rightarrow> bool \<Rightarrow> py_error + py_error list" where
  "IPAdapter_init_weights self weights strict use_pooled_text_embedding =
     (case weights of
        None \<Rightarrow> Inr []
      | Some w \<Rightarrow>
          let image_proj_state_dict = under_prefix ''image_proj.'' w;
              printed = (case load_state_dict (image_proj_params self) image_proj_state_dict strict of
                           Inl e \<Rightarrow> [e]
                         | Inr loaded \<Rightarrow> [])
          in and_then (load_sub_adapters 0 (sub_adapters_params self) w) (\<lambda>u.
               if use_pooled_text_embedding
               then and_then
                      (load_state_dict (pooled_text_embedding_proj_params self)
                         (under_prefix ''pooled_text_embedding_proj.'' w) strict)
                      (\<lambda>loaded. Inr printed)
               else Inr printed))"

text \<open>Parameters and weight maps to evaluate on: a projection with one weight matrix, one
  sub-adapter with a key and a value matrix, and a projector with a weight and a bias.\<close>

definition example_parameters :: ip_parameters where
  "example_parameters =
     \<lparr>image_proj_params = [(''0.weight'', [4, 2])],
      sub_adapters_params = [[(''to_k.weight'', [2, 2]), (''to_v.weight'', [2, 2])]],
      pooled_text_embedding_proj_params = [(''1.weight'', [3, 2]), (''1.bias'', [3])]\<rparr>"

definition example_weights :: state_dict where
  "example_weights =
     [(''image_proj.0.weight'', [4, 2]),
      (''ip_adapter.000.to_k.weight'', [2, 2]),
      (''ip_adapter.000.to_v.weight'', [2, 2]),
      (''pooled_text_embedding_proj.1.weight'', [3, 2]),
      (''pooled_text_embedding_proj.1.bias'', [3])]"


section \<open>Calls and names\<close>

text \<open>
  A Python function without \<open>*args\<close> and \<open>**kwargs\<close> has a signature: its parameter names
  in order, each with whether it has a default. A call passes some arguments by position
  and some by keyword; binding them raises \<open>TypeError\<close>, before the body runs, when
  there are too many positional arguments, when a keyword names no parameter, when a
  keyword names a parameter already given by position, or when a parameter without
  default is left without argument.
\<close>

type_synonym signature = "(string \<times> bool) list"

definition bind_call :: "signature \<Rightarrow> nat \<Rightarrow> string list \<Rightarrow> py_error option" where
  "bind_call sig n_positional keywords =
     (if length sig < n_positional then Some TypeError
      else if list_ex (\<lambda>k. k \<notin> set (map fst sig)) keywords then Some TypeError
      else if list_ex (\<lambda>k. k \<in> set (take n_positional (map fst sig))) keywords
        then Some TypeError
      else if list_ex (\<lambda>(name, has_default). \<not> has_default
                 \<and> name \<notin> set (take n_positional (map fst sig))
                 \<and> name \<notin> set keywords) sig
        then Some TypeError
      else None)"

text \<open>A name is looked up in the local scope, then among the globals of the module, then
  among the builtins; a name bound nowhere raises \<open>NameError\<close>. A scope maps a name to
  the truth value of what it is bound to, which is all that a condition reads.\<close>

type_synonym scope = "(string \<times> bool) list"

definition resolve :: "scope \<Rightarrow> scope \<Rightarrow> scope \<Rightarrow> string \<Rightarrow> py_error + bool" where
  "resolve locals globals builtins name =
     (case map_of (locals @ globals @ builtins) name of
        None \<Rightarrow> Inl NameError
      | Some truth \<Rightarrow> Inr truth)"

definition raise_or :: "py_error option \<Rightarrow> (py_error + 'a) \<Rightarrow> py_error + 'a" where
  "raise_or r rest = (case r of Some e \<Rightarrow> Inl e | None \<Rightarrow> rest)"

text \<open>
  What the modelled constructors call outside the sources at hand is a parameter: for
  each such call, whether it returns (\<open>None\<close>) or raises. \<open>layer_init\<close> stands for the
  constructors of the layers of \<open>refiners.fluxion.layers\<close> other than the normalisations
  (\<open>Linear\<close>, \<open>Reshape\<close>, \<open>Chain\<close>, ...), by class name. \<open>builtins\<close> is the
  builtins namespace of the interpreter.
\<close>

record environment =
  Module_init :: "py_error option"
  torch_ones :: "int list \<Rightarrow> py_error option"
  torch_zeros :: "int list \<Rightarrow> py_error option"
  layer_init :: "string \<Rightarrow> py_error option"
  CLIPImageEncoderH_init :: "py_error option"
  ensure_find_CrossAttentionBlock2d :: "py_error option"
  IPAdapter_init_body :: "py_error option"
  builtins :: scope

section \<open>LayerNormTorch and LayerNorm (norm.py)\<close>

text \<open>The names bound at the top level of \<open>norm.py\<close>: its imports and its classes, all
  bound to modules, functions and classes, which are true.\<close>

definition norm_globals :: scope where
  "norm_globals = map (\<lambda>name. (name, True))
     [''Float'', ''Tensor'', ''Device'', ''DType'', ''nn'', ''ones'', ''sqrt'', ''zeros'',
      ''Parameter'', ''layer_norm'', ''Module'', ''WeightedModule'',
      ''LayerNormTorch'', ''LayerNorm'', ''GroupNorm'', ''LayerNorm2d'', ''InstanceNorm2d'']"

datatype normalized_shape = IntShape int | ListShape "int list"

text \<open>The attributes \<open>self.dim\<close> and \<open>self.eps\<close>, and whether \<open>self.bias\<close> is a parameter.\<close>

record layer_norm =
  self_dim :: "int list"
  self_bias :: bool
  self_eps :: real

definition LayerNormTorch_signature :: signature where
  "LayerNormTorch_signature =
     [(''self'', False), (''normalized_shape'', False), (''eps'', True), (''use_bias'', True),
      (''device'', True), (''dtype'', True)]"

text \<open>The body of \<open>LayerNormTorch.__init__\<close>. The local scope holds the parameters; the
  condition of the conditional expression is the name \<open>bias\<close>, evaluated before either
  branch.\<close>

definition LayerNormTorch_init ::
  "environment \<Rightarrow> normalized_shape \<Rightarrow> real \<Rightarrow> bool \<Rightarrow> string option \<Rightarrow> string option
     \<Rightarrow> py_error + layer_norm" where
  "LayerNormTorch_init env normalized_shape eps use_bias device dtype =
     (let locals = [(''self'', True),
                    (''normalized_shape'',
                       (case normalized_shape of IntShape n \<Rightarrow> n \<noteq> 0 | ListShape ns \<Rightarrow> ns \<noteq> [])),
                    (''eps'', eps \<noteq> 0), (''use_bias'', use_bias),
                    (''device'', device \<noteq> None \<and> device \<noteq> Some []),
                    (''dtype'', dtype \<noteq> None)]
      in raise_or (Module_init env)
           (let dim = (case normalized_shape of IntShape n \<Rightarrow> [n] | ListShape ns \<Rightarrow> ns)
            in raise_or (torch_ones env dim)
                 (and_then (resolve locals norm_globals (builtins env) ''bias'') (\<lambda>bias.
                    raise_or (if bias then torch_zeros env dim else None)
                      (Inr \<lparr>self_dim = dim, self_bias = bias, self_eps = eps\<rparr>)))))"

text \<open>\<open>LayerNorm.__init__\<close> has the same parameters and passes them on by keyword to the
  next class in its resolution order, \<open>LayerNormTorch\<close>.\<close>

definition LayerNorm_signature :: signature where
  "LayerNorm_signature = LayerNormTorch_signature"

definition LayerNorm_init ::
  "environment \<Rightarrow> normalized_shape \<Rightarrow> real \<Rightarrow> bool \<Rightarrow> string option \<Rightarrow> string option
     \<Rightarrow> py_error + layer_norm" where
  "LayerNorm_init env normalized_shape eps use_bias device dtype =
     raise_or (bind_call LayerNormTorch_signature 1
                 [''normalized_shape'', ''eps'', ''use_bias'', ''device'', ''dtype''])
       (LayerNormTorch_init env normalized_shape eps use_bias device dtype)"

text \<open>A call \<open>LayerNorm(...)\<close> with the given keywords: the arguments are bound to
  \<open>LayerNorm.__init__\<close>, then its body runs. The image-prompt modules call it as
  \<open>fl.LayerNorm(normalized_shape=..., bias=use_bias, device=device, dtype=dtype)\<close>.\<close>

definition LayerNorm_call ::
  "environment \<Rightarrow> string list \<Rightarrow> normalized_shape \<Rightarrow> real \<Rightarrow> bool \<Rightarrow> string option
     \<Rightarrow> string option \<Rightarrow> py_error + layer_norm" where
  "LayerNorm_call env keywords normalized_shape eps use_bias device dtype =
     raise_or (bind_call LayerNorm_signature 1 keywords)
       (LayerNorm_init env normalized_shape eps use_bias device dtype)"

definition example_environment :: environment where
  "example_environment =
     \<lparr>Module_init = None, torch_ones = (\<lambda>d. None), torch_zeros = (\<lambda>d. None),
      layer_init = (\<lambda>c. None), CLIPImageEncoderH_init = None,
      ensure_find_CrossAttentionBlock2d = None, IPAdapter_init_body = None,
      builtins = map (\<lambda>name. (name, True))
        [''isinstance'', ''int'', ''tuple'', ''super'', ''list'', ''len'', ''print'', ''range'']\<rparr>"


section \<open>The image-prompt modules that hold a LayerNorm (image_prompt.py)\<close>

text \<open>The constructors that are parameters, called in order: the first that raises ends
  the evaluation.\<close>

fun construct_all :: "environment \<Rightarrow> string list \<Rightarrow> py_error option" where
  "construct_all env [] = None"
| "construct_all env (c # cs) =
     (case layer_init env c of Some e \<Rightarrow> Some e | None \<Rightarrow> construct_all env cs)"

text \<open>The class of an image projection object.\<close>

datatype proj_class = ImageProjection_obj | PerceiverResampler_obj | Other_module

definition ImageProjection_signature :: signature where
  "ImageProjection_signature =
     [(''self'', False), (''image_embedding_dim'', True), (''clip_text_embedding_dim'', True),
      (''num_tokens'', True), (''use_bias'', True), (''device'', True), (''dtype'', True)]"

text \<open>\<open>ImageProjection.__init__\<close>: the arguments of \<open>super().__init__\<close> are evaluated from
  left to right, the \<open>Linear\<close>, the \<open>Reshape\<close>, then the call
  \<open>fl.LayerNorm(normalized_shape=..., bias=use_bias, device=device, dtype=dtype)\<close>.\<close>

definition ImageProjection_init ::
  "environment \<Rightarrow> int \<Rightarrow> bool \<Rightarrow> string option \<Rightarrow> string option \<Rightarrow> py_error + proj_class" where
  "ImageProjection_init env clip_text_embedding_dim use_bias device dtype =
     raise_or (construct_all env [''Linear'', ''Reshape''])
       (and_then (LayerNorm_call env [''normalized_shape'', ''bias'', ''device'', ''dtype'']
                    (IntShape clip_text_embedding_dim) (1 / 100000) True device dtype) (\<lambda>norm.
          raise_or (construct_all env [''Chain'']) (Inr ImageProjection_obj)))"

definition PerceiverAttention_signature :: signature where
  "PerceiverAttention_signature =
     [(''self'', False), (''embedding_dim'', False), (''head_dim'', True), (''num_heads'', True),
      (''device'', True), (''dtype'', True), (''use_bias'', True)]"

text \<open>\<open>PerceiverAttention.__init__\<close>: the first argument of \<open>super().__init__\<close> is a
  \<open>Distribute\<close> of two \<open>LayerNorm\<close> calls with the keyword \<open>bias\<close>.\<close>

definition PerceiverAttention_init ::
  "environment \<Rightarrow> int \<Rightarrow> bool \<Rightarrow> string option \<Rightarrow> string option \<Rightarrow> py_error + unit" where
  "PerceiverAttention_init env embedding_dim use_bias device dtype =
     and_then (LayerNorm_call env [''normalized_shape'', ''bias'', ''device'', ''dtype'']
                 (IntShape embedding_dim) (1 / 100000) True device dtype) (\<lambda>norm1.
     and_then (LayerNorm_call env [''normalized_shape'', ''bias'', ''device'', ''dtype'']
                 (IntShape embedding_dim) (1 / 100000) True device dtype) (\<lambda>norm2.
     raise_or (construct_all env
                 [''Distribute'', ''Lambda'', ''Linear'', ''Chain'', ''GetArg'', ''Linear'',
                  ''Chain'', ''Parallel'', ''Module'', ''Linear'', ''Chain''])
       (Inr ())))"

definition FeedForward_signature :: signature where
  "FeedForward_signature =
     [(''self'', False), (''embedding_dim'', False), (''feedforward_dim'', False),
      (''device'', True), (''dtype'', True)]"

definition LatentsToken_signature :: signature where
  "LatentsToken_signature =
     [(''self'', False), (''num_tokens'', False), (''latents_dim'', False),
      (''device'', True), (''dtype'', True)]"

text \<open>One element of the generator in \<open>PerceiverResampler.__init__\<close>: a \<open>TransformerLayer\<close>
  of two residual blocks, the first around a \<open>PerceiverAttention\<close>, the second around a
  \<open>LayerNorm\<close> call with the keyword \<open>bias\<close> and a \<open>FeedForward\<close>.\<close>

definition TransformerLayer_element ::
  "environment \<Rightarrow> int \<Rightarrow> bool \<Rightarrow> string option \<Rightarrow> string option \<Rightarrow> py_error + unit" where
  "TransformerLayer_element env latents_dim use_bias device dtype =
     raise_or (construct_all env [''UseContext'', ''Identity'', ''Parallel''])
       (raise_or (bind_call PerceiverAttention_signature 1
                    [''embedding_dim'', ''head_dim'', ''num_heads'', ''use_bias'', ''device'',
                     ''dtype''])
       (and_then (PerceiverAttention_init env latents_dim use_bias device dtype) (\<lambda>attention.
        raise_or (construct_all env [''Residual''])
       (and_then (LayerNorm_call env [''normalized_shape'', ''bias'', ''device'', ''dtype'']
                    (IntShape latents_dim) (1 / 100000) True device dtype) (\<lambda>norm.
        raise_or (bind_call FeedForward_signature 1
                    [''embedding_dim'', ''feedforward_dim'', ''device'', ''dtype''])
       (raise_or (construct_all env
                    [''Linear'', ''GeLU'', ''Linear'', ''Chain'', ''Residual'', ''Chain''])
          (Inr ())))))))"

text \<open>The generator \<open>for _ in range(num_attention_layers)\<close>, drawn by the constructor of
  the \<open>Transformer\<close> chain.\<close>

fun transformer_layers ::
  "environment \<Rightarrow> nat \<Rightarrow> int \<Rightarrow> bool \<Rightarrow> string option \<Rightarrow> string option \<Rightarrow> py_error + unit" where
  "transformer_layers env 0 latents_dim use_bias device dtype = Inr ()"
| "transformer_layers env (Suc n) latents_dim use_bias device dtype =
     and_then (TransformerLayer_element env latents_dim use_bias device dtype) (\<lambda>layer.
       transformer_layers env n latents_dim use_bias device dtype)"

definition PerceiverResampler_signature :: signature where
  "PerceiverResampler_signature =
     [(''self'', False), (''latents_dim'', True), (''num_attention_layers'', True),
      (''num_attention_heads'', True), (''head_dim'', True), (''num_tokens'', True),
      (''input_dim'', True), (''output_dim'', True), (''device'', True), (''dtype'', True),
      (''use_bias'', True)]"

text \<open>\<open>PerceiverResampler.__init__\<close>: a \<open>Linear\<close>, a \<open>SetContext\<close>, the \<open>LatentsToken\<close>, the
  \<open>Transformer\<close> of the generated layers, a \<open>Linear\<close>, and a \<open>LayerNorm\<close> call with the
  keyword \<open>bias\<close>.\<close>

definition PerceiverResampler_init ::
  "environment \<Rightarrow> int \<Rightarrow> int \<Rightarrow> int \<Rightarrow> bool \<Rightarrow> string option \<Rightarrow> string option
     \<Rightarrow> py_error + proj_class" where
  "PerceiverResampler_init env latents_dim num_attention_layers output_dim use_bias device dtype =
     raise_or (construct_all env [''Linear'', ''SetContext''])
       (raise_or (bind_call LatentsToken_signature 3 [''device'', ''dtype''])
       (raise_or (construct_all env [''Parameter'', ''Chain''])
       (and_then (transformer_layers env (nat num_attention_layers) latents_dim use_bias
                    device dtype) (\<lambda>layers.
        raise_or (construct_all env [''Chain'', ''Linear''])
       (and_then (LayerNorm_call env [''normalized_shape'', ''bias'', ''device'', ''dtype'']
                    (IntShape output_dim) (1 / 100000) True device dtype) (\<lambda>norm.
        raise_or (construct_all env [''Chain'']) (Inr PerceiverResampler_obj)))))))"

section \<open>SD1IPAdapter (stable_diffusion_1/image_prompt.py)\<close>

definition get_sd1_image_proj_signature :: signature where
  "get_sd1_image_proj_signature =
     [(''image_encoder'', False), (''target'', False), (''cross_attn_2d'', False),
      (''fine_grained'', False), (''use_bias'', False), (''device'', True), (''dtype'', True)]"

text \<open>\<open>get_sd1_image_proj\<close>: an \<open>ImageProjection\<close>, or a \<open>PerceiverResampler\<close> of four
  attention layers when \<open>fine_grained\<close>. The dimensions are attributes of the encoder and
  of the cross-attention block.\<close>

definition get_sd1_image_proj ::
  "environment \<Rightarrow> int \<Rightarrow> bool \<Rightarrow> bool \<Rightarrow> string option \<Rightarrow> string option
     \<Rightarrow> py_error + proj_class" where
  "get_sd1_image_proj env context_embedding_dim fine_grained use_bias proj_device proj_dtype =
     (if \<not> fine_grained
      then raise_or (bind_call ImageProjection_signature 1
                       [''image_embedding_dim'', ''clip_text_embedding_dim'', ''device'',
                        ''dtype'', ''use_bias''])
             (ImageProjection_init env context_embedding_dim use_bias proj_device proj_dtype)
      else raise_or (bind_call PerceiverResampler_signature 1
                       [''latents_dim'', ''num_attention_layers'', ''num_attention_heads'',
                        ''head_dim'', ''num_tokens'', ''input_dim'', ''output_dim'', ''device'',
                        ''dtype'', ''use_bias''])
             (PerceiverResampler_init env context_embedding_dim 4 context_embedding_dim
                use_bias proj_device proj_dtype))"

definition IPAdapter_signature :: signature where
  "IPAdapter_signature =
     [(''self'', False), (''target'', False), (''image_encoder'', False),
      (''image_proj'', False), (''scale'', True), (''fine_grained'', True), (''weights'', True),
      (''strict'', True), (''use_timestep_embedding'', True),
      (''use_pooled_text_embedding'', True), (''use_bias'', True), (''sequence_length'', True)]"

text \<open>
  \<open>SD1IPAdapter.__init__\<close>. An image encoder is given as the number of its layers (a
  chain without layers is false, and \<open>image_encoder or ...\<close> then builds the default
  encoder, as it does for \<open>None\<close>); an image projection is given by its class. The target
  enters through its device and dtype and the embedding dimension of its cross-attention
  block. The last statement is the call \<open>super().__init__(...)\<close> with thirteen keywords.
\<close>

definition SD1IPAdapter_init ::
  "environment \<Rightarrow> string option \<Rightarrow> string option \<Rightarrow> int \<Rightarrow> nat option \<Rightarrow> proj_class option
     \<Rightarrow> real \<Rightarrow> bool \<Rightarrow> state_dict option \<Rightarrow> bool \<Rightarrow> bool \<Rightarrow> bool \<Rightarrow> bool \<Rightarrow> bool \<Rightarrow> bool
     \<Rightarrow> py_error + unit" where
  "SD1IPAdapter_init env target_device target_dtype context_embedding_dim image_encoder
       image_proj scale fine_grained weights strict use_timestep_embedding
       use_pooled_text_embedding use_bias layernorm_dino weighted_sum =
     raise_or (case image_encoder of
                 None \<Rightarrow> CLIPImageEncoderH_init env
               | Some layers \<Rightarrow> if 0 < layers then None else CLIPImageEncoderH_init env)
       (and_then
          (case image_proj of
             None \<Rightarrow>
               raise_or (ensure_find_CrossAttentionBlock2d env)
                 (raise_or (bind_call get_sd1_image_proj_signature 5 [])
                    (get_sd1_image_proj env context_embedding_dim fine_grained use_bias
                       target_device target_dtype))
           | Some given \<Rightarrow>
               if fine_grained
               then (if given = PerceiverResampler_obj then Inr given else Inl AssertionError)
               else Inr given) (\<lambda>image_proj.
        let sequence_length = (if fine_grained then 16 else - 1 :: int)
        in raise_or (bind_call IPAdapter_signature 1
                       [''target'', ''image_encoder'', ''image_proj'', ''scale'',
                        ''fine_grained'', ''weights'', ''strict'', ''use_timestep_embedding'',
                        ''use_pooled_text_embedding'', ''use_bias'', ''sequence_length'',
                        ''layernorm_dino'', ''weighted_sum''])
             (raise_or (IPAdapter_init_body env) (Inr ()))))"


section \<open>The module graph: chains and their ordered children\<close>

text \<open>
  Modules are objects: a module is identified by a \<open>node\<close>, and two modules are the same
  exactly when their nodes are equal. The graph is a store that gives every chain its
  ordered list of children, and every adapter its injection state. An operation that
  raises leaves the store as it was mutated up to the raise, so an outcome carries the
  store in both cases.
\<close>

type_synonym node = nat

datatype injection_state = NOT_INJECTED | INJECTED "node option"

record graph =
  children :: "node \<Rightarrow> node list"
  adapter_state :: "node \<Rightarrow> injection_state"

datatype outcome = Done graph | Raised py_error graph

definition and_next :: "outcome \<Rightarrow> (graph \<Rightarrow> outcome) \<Rightarrow> outcome" where
  "and_next r f = (case r of Done g \<Rightarrow> f g | Raised e g \<Rightarrow> Raised e g)"

definition store_of :: "outcome \<Rightarrow> graph" where
  "store_of r = (case r of Done g \<Rightarrow> g | Raised e g \<Rightarrow> g)"

definition raised :: "outcome \<Rightarrow> py_error option" where
  "raised r = (case r of Done g \<Rightarrow> None | Raised e g \<Rightarrow> Some e)"

definition set_children :: "node \<Rightarrow> node list \<Rightarrow> graph \<Rightarrow> graph" where
  "set_children chain cs g = g\<lparr>children := (children g)(chain := cs)\<rparr>"

definition set_state :: "node \<Rightarrow> injection_state \<Rightarrow> graph \<Rightarrow> graph" where
  "set_state a st g = g\<lparr>adapter_state := (adapter_state g)(a := st)\<rparr>"

text \<open>The first element equal to \<open>old\<close> is exchanged for \<open>new\<close>; the list keeps its length
  and every other element.\<close>

fun replace_first :: "'a \<Rightarrow> 'a \<Rightarrow> 'a list \<Rightarrow> 'a list" where
  "replace_first old new [] = []"
| "replace_first old new (x # xs) =
     (if x = old then new # xs else x # replace_first old new xs)"

text \<open>
  Modelled from the spec: \<open>Chain.insert\<close> of \<open>refiners.fluxion.layers.chain\<close>, which is
  not among the sources. The spec gives a chain the operations "replace a specific child
  in place, insert/remove at an index"; an index past the end inserts at the end.
\<close>

definition Chain_insert :: "node \<Rightarrow> nat \<Rightarrow> node \<Rightarrow> graph \<Rightarrow> graph" where
  "Chain_insert chain index m g =
     set_children chain
       (take index (children g chain) @ m # drop index (children g chain)) g"

text \<open>
  Modelled from the spec: \<open>Chain.pop\<close> of \<open>refiners.fluxion.layers.chain\<close>, which is not
  among the sources: "insert/remove at an index". Removing at an index that is not there
  raises \<open>IndexError\<close>, as it does for a Python list.
\<close>

definition Chain_pop :: "node \<Rightarrow> nat \<Rightarrow> graph \<Rightarrow> outcome" where
  "Chain_pop chain index g =
     (if index < length (children g chain)
      then Done (set_children chain
                   (take index (children g chain) @ drop (Suc index) (children g chain)) g)
      else Raised IndexError g)"

text \<open>
  Modelled from the spec: \<open>Chain.replace\<close> of \<open>refiners.fluxion.layers.chain\<close>, which is
  not among the sources: "replace a specific child in place"; \<open>replace(old, new)\<close>
  "requires \<open>old\<close> to be an existing" child, found by identity, and fails otherwise.
\<close>

definition Chain_replace :: "node \<Rightarrow> node \<Rightarrow> node \<Rightarrow> graph \<Rightarrow> outcome" where
  "Chain_replace chain old_module new_module g =
     (if old_module \<in> set (children g chain)
      then Done (set_children chain
                   (replace_first old_module new_module (children g chain)) g)
      else Raised StructuralNotFound g)"

section \<open>The adapter lifecycle\<close>

text \<open>
  The base class \<open>Adapter\<close> of \<open>refiners.fluxion.adapters.adapter\<close> is not among the
  sources. By the spec an adapter holds a reference to its target and the target's parent
  chain at capture time, and an injection state. The state lives in the store, and
  \<open>INJECTED\<close> remembers the chain whose slot the adapter took (\<open>None\<close> when the target
  resided in no chain).
\<close>

record adapter =
  adapter_node :: node
  target :: node
  parent :: "node option"

text \<open>
  Modelled from the spec: \<open>Adapter.inject\<close>, which is not among the sources.
  \<open>inject(parent?)\<close>: "if the target still resides in a parent chain, replace the target's
  slot in that parent with the adapter itself; transition state to INJECTED"; "injecting
  an already-injected one is a contract violation (fails, does not silently no-op)". The
  parent is the argument when one is given, the captured parent otherwise.
\<close>

definition Adapter_inject :: "'a adapter_scheme \<Rightarrow> node option \<Rightarrow> graph \<Rightarrow> outcome" where
  "Adapter_inject self parent_arg g =
     (case adapter_state g (adapter_node self) of
        INJECTED _ \<Rightarrow> Raised InvalidAdapterState g
      | NOT_INJECTED \<Rightarrow>
          (case (case parent_arg of Some q \<Rightarrow> Some q | None \<Rightarrow> parent self) of
             None \<Rightarrow> Done (set_state (adapter_node self) (INJECTED None) g)
           | Some q \<Rightarrow>
               if target self \<in> set (children g q)
               then and_next (Chain_replace q (target self) (adapter_node self) g)
                      (\<lambda>g'. Done (set_state (adapter_node self) (INJECTED (Some q)) g'))
               else Done (set_state (adapter_node self) (INJECTED None) g)))"

text \<open>
  Modelled from the spec: \<open>Adapter.eject\<close>, which is not among the sources. \<open>eject()\<close>:
  "restores the parent's slot to the original target reference; transition state to
  NOT_INJECTED"; "ejecting a non-injected adapter is a contract violation (fails, does
  not silently no-op)".
\<close>

definition Adapter_eject :: "'a adapter_scheme \<Rightarrow> graph \<Rightarrow> outcome" where
  "Adapter_eject self g =
     (case adapter_state g (adapter_node self) of
        NOT_INJECTED \<Rightarrow> Raised InvalidAdapterState g
      | INJECTED None \<Rightarrow> Done (set_state (adapter_node self) NOT_INJECTED g)
      | INJECTED (Some q) \<Rightarrow>
          and_next (Chain_replace q (adapter_node self) (target self) g)
            (\<lambda>g'. Done (set_state (adapter_node self) NOT_INJECTED g')))"


section \<open>Module trees: the layers below a sub-adapter\<close>

text \<open>
  The replacement subtree that a sub-adapter owns is a tree of modules. A module is a
  layer with its ordered children (no children for a module that is not a chain). The
  two layers that carry a multiplier keep it as a field: \<open>Multiply\<close> its \<open>scale\<close>, and
  \<open>ImageCrossAttention\<close> its private \<open>_scale\<close>. Every other class is a \<open>Layer\<close> with the
  class name; the weights of the linear layers play no part here.
\<close>

datatype layer = Multiply real | ImageCrossAttention real | Layer string

datatype module = Module layer "module list"

fun is_Multiply :: "layer \<Rightarrow> bool" where
  "is_Multiply (Multiply v) = True"
| "is_Multiply l = False"

fun is_ImageCrossAttention :: "layer \<Rightarrow> bool" where
  "is_ImageCrossAttention (ImageCrossAttention v) = True"
| "is_ImageCrossAttention l = False"

definition is_ScaledDotProductAttention :: "layer \<Rightarrow> bool" where
  "is_ScaledDotProductAttention l \<longleftrightarrow> l = Layer ''ScaledDotProductAttention''"

text \<open>
  Modelled from the spec: \<open>Chain.find\<close>, which is not among the sources: "locate first
  descendant matching a type/predicate (depth-first, pre-order, deterministic)". The
  search runs over the children of a chain, given as a list: each child before its own
  descendants, and those before the next child.
\<close>

fun find_first :: "(layer \<Rightarrow> bool) \<Rightarrow> module list \<Rightarrow> module option" where
  "find_first p [] = None"
| "find_first p (Module l cs # ms) =
     (if p l then Some (Module l cs)
      else case find_first p cs of
             Some m \<Rightarrow> Some m
           | None \<Rightarrow> find_first p ms)"

text \<open>An assignment to the module that \<open>find_first\<close> returns: the tree with that module
  exchanged, and every other module as it was.\<close>

fun update_first :: "(layer \<Rightarrow> bool) \<Rightarrow> (module \<Rightarrow> module) \<Rightarrow> module list \<Rightarrow> module list" where
  "update_first p f [] = []"
| "update_first p f (Module l cs # ms) =
     (if p l then f (Module l cs) # ms
      else if find_first p cs \<noteq> None then Module l (update_first p f cs) # ms
      else Module l cs # update_first p f ms)"

text \<open>
  Modelled from the spec: \<open>Chain.ensure_find\<close>, which is not among the sources: the
  strict search, which "returns the first match or fails with a NotFound condition".
\<close>

definition ensure_find :: "(layer \<Rightarrow> bool) \<Rightarrow> module list \<Rightarrow> py_error + module" where
  "ensure_find p ms = (case find_first p ms of None \<Rightarrow> Inl StructuralNotFound | Some m \<Rightarrow> Inr m)"

section \<open>ImageCrossAttention and CrossAttentionAdapter (image_prompt.py)\<close>

text \<open>\<open>ImageCrossAttention.__init__\<close>: the key and query context lists get one chain for the
  image embedding and one more for each of the two optional embeddings; the chain ends
  in the \<open>Multiply\<close> that holds the scale.\<close>

definition context_chain :: "bool \<Rightarrow> module" where
  "context_chain expanded =
     Module (Layer ''Chain'')
       ([Module (Layer ''UseContext'') [], Module (Layer ''Linear'') []]
        @ (if expanded then [Module (Layer ''Lambda'') []] else []))"

definition ImageCrossAttention_init :: "real \<Rightarrow> bool \<Rightarrow> bool \<Rightarrow> module" where
  "ImageCrossAttention_init scale use_timestep_embedding use_pooled_text_embedding =
     (let key_contexts = [context_chain False]
            @ (if use_timestep_embedding then [context_chain True] else [])
            @ (if use_pooled_text_embedding then [context_chain True] else []);
          query_contexts = [context_chain False]
            @ (if use_timestep_embedding then [context_chain True] else [])
            @ (if use_pooled_text_embedding then [context_chain True] else [])
      in Module (ImageCrossAttention scale)
           [Module (Layer ''Distribute'')
              [Module (Layer ''Identity'') [],
               Module (Layer ''Sum'') key_contexts,
               Module (Layer ''Sum'') query_contexts],
            Module (Layer ''ScaledDotProductAttention'') [],
            Module (Multiply scale) []])"

text \<open>The property \<open>ImageCrossAttention.scale\<close> and its setter, which stores the value
  and assigns it to the first \<open>Multiply\<close> below.\<close>

fun ImageCrossAttention_scale :: "module \<Rightarrow> py_error + real" where
  "ImageCrossAttention_scale (Module (ImageCrossAttention v) cs) = Inr v"
| "ImageCrossAttention_scale m = Inl AttributeError"

fun ImageCrossAttention_set_scale :: "real \<Rightarrow> module \<Rightarrow> py_error + module" where
  "ImageCrossAttention_set_scale v (Module l cs) =
     and_then (ensure_find is_Multiply cs) (\<lambda>found.
       Inr (Module (ImageCrossAttention v)
              (update_first is_Multiply (\<lambda>m. case m of Module k ks \<Rightarrow> Module (Multiply v) ks) cs)))"

text \<open>A sub-adapter: the adapter fields, its private \<open>_scale\<close>, and the children of its
  own chain (the adapted copy of the target).\<close>

record cross_attention_adapter = adapter +
  scale_attr :: real
  body :: "module list"

text \<open>\<open>CrossAttentionAdapter.__init__\<close>. The structural copy of the target is the target's
  tree as a value. The first \<open>ScaledDotProductAttention\<close> of the copy is exchanged for the
  sum of itself and a new \<open>ImageCrossAttention\<close>.\<close>

definition CrossAttentionAdapter_init ::
  "node \<Rightarrow> node \<Rightarrow> node option \<Rightarrow> module \<Rightarrow> real \<Rightarrow> bool \<Rightarrow> bool
     \<Rightarrow> py_error + cross_attention_adapter" where
  "CrossAttentionAdapter_init self_node target_node target_parent target_tree scale
       use_timestep_embedding use_pooled_text_embedding =
     (case target_tree of Module l cs \<Rightarrow>
        and_then (ensure_find is_ScaledDotProductAttention cs) (\<lambda>scaled_dot_product.
          let image_cross_attention =
                ImageCrossAttention_init scale use_timestep_embedding use_pooled_text_embedding;
              clone = Module l
                (update_first is_ScaledDotProductAttention
                   (\<lambda>m. Module (Layer ''Sum'') [m, image_cross_attention]) cs)
          in Inr \<lparr>adapter_node = self_node, target = target_node, parent = target_parent,
                  scale_attr = scale, body = [clone]\<rparr>))"

text \<open>The property \<open>CrossAttentionAdapter.image_cross_attention\<close>, the property \<open>scale\<close>
  and its setter.\<close>

definition image_cross_attention :: "cross_attention_adapter \<Rightarrow> py_error + module" where
  "image_cross_attention self = ensure_find is_ImageCrossAttention (body self)"

definition CrossAttentionAdapter_scale :: "cross_attention_adapter \<Rightarrow> real" where
  "CrossAttentionAdapter_scale self = scale_attr self"

definition CrossAttentionAdapter_set_scale ::
  "real \<Rightarrow> cross_attention_adapter \<Rightarrow> py_error + cross_attention_adapter" where
  "CrossAttentionAdapter_set_scale v self =
     and_then (image_cross_attention self) (\<lambda>ica.
     and_then (ImageCrossAttention_set_scale v ica) (\<lambda>ica'.
       Inr (self\<lparr>scale_attr := v,
                 body := update_first is_ImageCrossAttention (\<lambda>m. ica') (body self)\<rparr>)))"

text \<open>The multiplier in effect: the scale of the \<open>Multiply\<close> inside the sub-adapter's
  \<open>ImageCrossAttention\<close>, read through the same two searches.\<close>

definition effective_multiplier :: "cross_attention_adapter \<Rightarrow> real option" where
  "effective_multiplier self =
     (case find_first is_ImageCrossAttention (body self) of
        None \<Rightarrow> None
      | Some (Module l cs) \<Rightarrow>
          (case find_first is_Multiply cs of
             Some (Module (Multiply v) ks) \<Rightarrow> Some v
           | _ \<Rightarrow> None))"

section \<open>IPAdapter (image_prompt.py)\<close>

record ip_adapter = adapter +
  use_pooled_text_embedding :: bool
  pooled_text_embedding_proj :: node
  sub_adapters :: "cross_attention_adapter list"

text \<open>The two loops \<open>for adapter in self.sub_adapters\<close>: the first raise ends the loop.\<close>

fun inject_sub_adapters :: "cross_attention_adapter list \<Rightarrow> graph \<Rightarrow> outcome" where
  "inject_sub_adapters [] g = Done g"
| "inject_sub_adapters (a # as) g = and_next (Adapter_inject a None g) (inject_sub_adapters as)"

fun eject_sub_adapters :: "cross_attention_adapter list \<Rightarrow> graph \<Rightarrow> outcome" where
  "eject_sub_adapters [] g = Done g"
| "eject_sub_adapters (a # as) g = and_next (Adapter_eject a g) (eject_sub_adapters as)"

text \<open>\<open>IPAdapter.inject\<close> and \<open>IPAdapter.eject\<close>.\<close>

definition IPAdapter_inject :: "ip_adapter \<Rightarrow> node option \<Rightarrow> graph \<Rightarrow> outcome" where
  "IPAdapter_inject self parent_arg g =
     and_next (inject_sub_adapters (sub_adapters self) g) (\<lambda>g1.
     and_next (if use_pooled_text_embedding self
               then Done (Chain_insert (target self) 0 (pooled_text_embedding_proj self) g1)
               else Done g1) (\<lambda>g2.
     Adapter_inject self parent_arg g2))"

definition IPAdapter_eject :: "ip_adapter \<Rightarrow> graph \<Rightarrow> outcome" where
  "IPAdapter_eject self g =
     and_next (eject_sub_adapters (sub_adapters self) g) (\<lambda>g1.
     and_next (if use_pooled_text_embedding self
               then Chain_pop (target self) 0 g1
               else Done g1) (\<lambda>g2.
     Adapter_eject self g2))"


fun set_scale_all ::
  "real \<Rightarrow> cross_attention_adapter list \<Rightarrow> py_error + cross_attention_adapter list" where
  "set_scale_all v [] = Inr []"
| "set_scale_all v (cross_attn # rest) =
     and_then (CrossAttentionAdapter_set_scale v cross_attn) (\<lambda>cross_attn'.
     and_then (set_scale_all v rest) (\<lambda>rest'. Inr (cross_attn' # rest')))"

definition IPAdapter_set_scale :: "real \<Rightarrow> ip_adapter \<Rightarrow> py_error + ip_adapter" where
  "IPAdapter_set_scale v self =
     and_then (set_scale_all v (sub_adapters self)) (\<lambda>subs. Inr (self\<lparr>sub_adapters := subs\<rparr>))"

definition set_scale :: "ip_adapter \<Rightarrow> real \<Rightarrow> py_error + ip_adapter" where
  "set_scale self scale = IPAdapter_set_scale scale self"


text \<open>
  The modules an adapter brings are new: the nodes of the adapter and of its sub-adapters
  are children of no chain before the injection, none of them is a target or the
  projector, and the projector is not the target.
\<close>

definition adapter_nodes :: "ip_adapter \<Rightarrow> node list" where
  "adapter_nodes self = adapter_node self # map adapter_node (sub_adapters self)"

definition adapter_targets :: "ip_adapter \<Rightarrow> node list" where
  "adapter_targets self = target self # map target (sub_adapters self)"

definition new_modules :: "ip_adapter \<Rightarrow> graph \<Rightarrow> bool" where
  "new_modules self g \<longleftrightarrow>
     (\<forall>n \<in> set (adapter_nodes self).
        (\<forall>q. n \<notin> set (children g q))
        \<and> n \<notin> set (adapter_targets self)
        \<and> n \<noteq> pooled_text_embedding_proj self)
     \<and> pooled_text_embedding_proj self \<noteq> target self"

text \<open>The module that stands in a slot once the given adapters are ejected: the target
  for the node of an adapter, the module itself otherwise.\<close>

fun original :: "cross_attention_adapter list \<Rightarrow> node \<Rightarrow> node" where
  "original [] n = n"
| "original (a # as) n = (if n = adapter_node a then target a else original as n)"


section \<open>The image embedding (image_prompt.py)\<close>

text \<open>
  An embedding is a tensor of three dimensions: a batch of rows, one per image, each row
  a sequence of tokens, each token a vector of reals (floats idealised).
\<close>

type_synonym embedding = "real list list list"

text \<open>
  What \<open>compute_image_embedding\<close> calls outside the file is a parameter: the two image
  encoders and the image projection (opaque modules), the preprocessing of an image, and
  the tensor operations on image batches and encoder outputs, whose values the function
  never inspects: \<open>cat\<close> on preprocessed images, \<open>shape[0]\<close>, \<open>zeros_like\<close>, and the
  division in place. \<open>'img\<close> is the type of images, \<open>'x\<close> of image batches, \<open>'e\<close> of
  encoder outputs.
\<close>

record ('img, 'x, 'e) embedder =
  fine_grained_flag :: bool
  pooled_image_encoder :: "'x \<Rightarrow> 'e"
  grid_image_encoder :: "'x \<Rightarrow> 'e"
  image_projection :: "'e \<Rightarrow> embedding"
  preprocess :: "'img \<Rightarrow> nat \<times> nat \<Rightarrow> 'x"
  cat_tensors :: "'x list \<Rightarrow> py_error + 'x"
  shape0 :: "'x \<Rightarrow> nat"
  zeros_like_prompt :: "'x \<Rightarrow> 'x"
  zeros_like_embedding :: "'e \<Rightarrow> 'e"
  divide_by :: "'e \<Rightarrow> real \<Rightarrow> 'e"

datatype ('img, 'x) image_prompt = Tensor_prompt 'x | Image_prompt 'img | Images_prompt "'img list"

text \<open>The tensor operations on embeddings. Concatenation needs at least one tensor, and
  all tensors must agree in every dimension but the one concatenated.\<close>

definition seq_lens :: "embedding list \<Rightarrow> nat list" where
  "seq_lens ts = concat (map (map length) ts)"

definition token_dims :: "embedding list \<Rightarrow> nat list" where
  "token_dims ts = concat (map (\<lambda>t. concat (map (map length) t)) ts)"

definition all_equal :: "nat list \<Rightarrow> bool" where
  "all_equal ns \<longleftrightarrow> length (remdups ns) \<le> 1"

text \<open>\<open>cat(tensors)\<close>, along the batch.\<close>

definition cat_dim0 :: "embedding list \<Rightarrow> py_error + embedding" where
  "cat_dim0 ts =
     (if ts \<noteq> [] \<and> all_equal (seq_lens ts) \<and> all_equal (token_dims ts)
      then Inr (concat ts) else Inl RuntimeError)"

text \<open>\<open>cat(tensors, dim=1)\<close>, along the sequence: row \<open>i\<close> of the result is the rows
  \<open>i\<close> of the tensors one after the other.\<close>

definition cat_dim1 :: "embedding list \<Rightarrow> py_error + embedding" where
  "cat_dim1 ts =
     (if ts \<noteq> [] \<and> all_equal (map length ts) \<and> all_equal (token_dims ts)
      then Inr (map concat (transpose ts)) else Inl RuntimeError)"

text \<open>\<open>tensor.chunk(chunks)\<close>: pieces of \<open>ceil(n / chunks)\<close> rows each, the last one
  possibly shorter. For a tensor without rows the model gives no piece.\<close>

function pieces :: "nat \<Rightarrow> 'a list \<Rightarrow> 'a list list" where
  "pieces k xs = (if xs = [] \<or> k = 0 then [] else take k xs # pieces k (drop k xs))"
  by pat_completeness auto
termination
  by (relation "measure (\<lambda>(k, xs). length xs)") auto

declare pieces.simps [simp del]

definition chunk :: "nat \<Rightarrow> embedding \<Rightarrow> embedding list" where
  "chunk chunks t = pieces ((length t + chunks - 1) div chunks) t"

text \<open>\<open>conditional_embedding *= tensor(weights).unsqueeze(-1).unsqueeze(-1)\<close>: a weight
  per row, a tensor of shape \<open>(len(weights), 1, 1)\<close> broadcast over the embedding in
  place.\<close>

definition scale_row :: "real \<Rightarrow> real list list \<Rightarrow> real list list" where
  "scale_row w row = map (map (\<lambda>v. v * w)) row"

definition mul_weights :: "real list \<Rightarrow> embedding \<Rightarrow> py_error + embedding" where
  "mul_weights weights t =
     (if length weights = length t then Inr (map2 scale_row weights t)
      else if length weights = 1 then Inr (map (scale_row (hd weights)) t)
      else Inl RuntimeError)"

text \<open>The property \<open>IPAdapter.image_encoder\<close> and \<open>IPAdapter._compute_image_embedding\<close>.\<close>

definition image_encoder_of :: "('img, 'x, 'e) embedder \<Rightarrow> 'x \<Rightarrow> 'e" where
  "image_encoder_of self =
     (if \<not> fine_grained_flag self then pooled_image_encoder self else grid_image_encoder self)"

definition compute_image_embedding_pair ::
  "('img, 'x, 'e) embedder \<Rightarrow> 'x \<Rightarrow> real \<Rightarrow> embedding \<times> embedding" where
  "compute_image_embedding_pair self image_prompt div_factor =
     (let image_encoder = image_encoder_of self;
          image_embedding = divide_by self (image_encoder image_prompt) div_factor;
          conditional_embedding = image_projection self image_embedding;
          negative_embedding =
            (if \<not> fine_grained_flag self
             then image_projection self (zeros_like_embedding self image_embedding)
             else image_projection self
                    (divide_by self (image_encoder (zeros_like_prompt self image_prompt))
                       div_factor))
      in (negative_embedding, conditional_embedding))"

text \<open>The first statement of \<open>IPAdapter.compute_image_embedding\<close>: an image is
  preprocessed, a list of images is preprocessed one by one and concatenated, a tensor
  is taken as it is.\<close>

definition prompt_tensor ::
  "('img, 'x, 'e) embedder \<Rightarrow> ('img, 'x) image_prompt \<Rightarrow> nat \<times> nat \<Rightarrow> py_error + 'x" where
  "prompt_tensor self image_prompt image_size =
     (case image_prompt of
        Tensor_prompt x \<Rightarrow> Inr x
      | Image_prompt img \<Rightarrow> Inr (preprocess self img image_size)
      | Images_prompt images \<Rightarrow>
          cat_tensors self (map (\<lambda>img. preprocess self img image_size) images))"

text \<open>\<open>IPAdapter.compute_image_embedding\<close>.\<close>

definition compute_image_embedding ::
  "('img, 'x, 'e) embedder \<Rightarrow> ('img, 'x) image_prompt \<Rightarrow> real list option \<Rightarrow> real \<Rightarrow> bool
     \<Rightarrow> nat \<times> nat \<Rightarrow> py_error + embedding" where
  "compute_image_embedding self image_prompt weights div_factor concat_batches image_size =
     and_then (prompt_tensor self image_prompt image_size) (\<lambda>image_prompt.
     case compute_image_embedding_pair self image_prompt div_factor of
       (negative_embedding, conditional_embedding) \<Rightarrow>
     let batch_size = shape0 self image_prompt in
     and_then
       (case weights of
          None \<Rightarrow> Inr conditional_embedding
        | Some ws \<Rightarrow>
            if length ws \<noteq> batch_size then Inl AssertionError
            else if list_ex (\<lambda>weight. weight \<noteq> 1) ws
              then mul_weights ws conditional_embedding
            else Inr conditional_embedding)
       (\<lambda>conditional_embedding.
     and_then
       (if 1 < batch_size \<and> concat_batches
        then and_then (cat_dim1 (chunk batch_size negative_embedding)) (\<lambda>negative_embedding.
             and_then (cat_dim1 (chunk batch_size conditional_embedding))
               (\<lambda>conditional_embedding. Inr (negative_embedding, conditional_embedding)))
        else Inr (negative_embedding, conditional_embedding))
       (\<lambda>(negative_embedding, conditional_embedding).
     cat_dim0 [negative_embedding, conditional_embedding])))"

text \<open>An embedding of the shape \<open>(b, s, d)\<close>.\<close>

definition has_shape :: "nat \<Rightarrow> nat \<Rightarrow> nat \<Rightarrow> embedding \<Rightarrow> bool" where
  "has_shape b s d t \<longleftrightarrow>
     length t = b \<and> list_all (\<lambda>row. length row = s \<and> list_all (\<lambda>tok. length tok = d) row) t"

text \<open>An embedder to evaluate on: an image is a number, an image batch a list of numbers,
  an encoder output a list of reals, one per image; the projection turns each into two
  tokens of one dimension.\<close>

definition example_embedder :: "(real, real list, real list) embedder" where
  "example_embedder =
     \<lparr>fine_grained_flag = False,
      pooled_image_encoder = (\<lambda>x. x),
      grid_image_encoder = (\<lambda>x. x),
      image_projection = map (\<lambda>v. [[v], [v + 1]]),
      preprocess = (\<lambda>img sz. [img]),
      cat_tensors = (\<lambda>xs. if xs = [] then Inl RuntimeError else Inr (concat xs)),
      shape0 = length,
      zeros_like_prompt = map (\<lambda>v. 0),
      zeros_like_embedding = map (\<lambda>v. 0),
      divide_by = (\<lambda>e f. map (\<lambda>v. v / f) e)\<rparr>"


section \<open>A small model to evaluate on\<close>

text \<open>
  A root chain \<open>0\<close> holds the target \<open>1\<close>, whose children are a self-attention \<open>2\<close> and a
  cross-attention \<open>3\<close>. The image-prompt adapter is node \<open>10\<close>, its one sub-adapter, built
  around \<open>3\<close>, is node \<open>11\<close>, and its pooled-embedding projector is node \<open>20\<close>. Nothing
  is injected.
\<close>

definition example_graph :: graph where
  "example_graph =
     \<lparr>children = (\<lambda>n. if n = 0 then [1] else if n = 1 then [2, 3] else []),
      adapter_state = (\<lambda>n. NOT_INJECTED)\<rparr>"

definition example_attention :: module where
  "example_attention =
     Module (Layer ''Attention'')
       [Module (Layer ''Distribute'') [Module (Layer ''Linear'') [], Module (Layer ''Linear'') []],
        Module (Layer ''ScaledDotProductAttention'') [],
        Module (Layer ''Linear'') []]"

definition example_sub_adapter :: cross_attention_adapter where
  "example_sub_adapter =
     \<lparr>adapter_node = 11, target = 3, parent = Some 1, scale_attr = 1,
      body =
        [Module (Layer ''Attention'')
           [Module (Layer ''Distribute'')
              [Module (Layer ''Linear'') [], Module (Layer ''Linear'') []],
            Module (Layer ''Sum'')
              [Module (Layer ''ScaledDotProductAttention'') [],
               ImageCrossAttention_init 1 False True],
            Module (Layer ''Linear'') []]]\<rparr>"

definition example_ip_adapter :: ip_adapter where
  "example_ip_adapter =
     \<lparr>adapter_node = 10, target = 1, parent = Some 0,
      use_pooled_text_embedding = True, pooled_text_embedding_proj = 20,
      sub_adapters = [example_sub_adapter]\<rparr>"



section \<open>Properties of the DDIM scheduler\<close>




lemma length_arange: "length (arange n) = nat n"
  by (simp add: arange_def)

lemma set_arange: "set (arange n) = {0..n - 1}"
  by (simp add: arange_def)

lemma leading_timestep_bound:
  fixes k n N :: int
  assumes "0 \<le> k" and "k < n" and "n < N"
  shows "0 < k * (N div n) + 1 \<and> k * (N div n) + 1 < N"
proof -
  let ?r = "N div n"
  have n_pos: "0 < n" using assms by linarith
  have "0 < ?r"
    using assms n_pos pos_imp_zdiv_pos_iff [of n N] by simp
  then have r_pos: "1 \<le> ?r" by linarith
  have nr: "n * ?r \<le> N"
  proof -
    have "N = n * ?r + N mod n" by simp
    moreover have "0 \<le> N mod n" using n_pos by simp
    ultimately show ?thesis by linarith
  qed
  have "k * ?r \<le> (n - 1) * ?r"
    using assms r_pos by (intro mult_right_mono) auto
  also have "\<dots> = n * ?r - ?r" by (simp add: algebra_simps)
  finally have le: "k * ?r \<le> n * ?r - ?r" .
  have lower: "0 \<le> k * ?r" using assms(1) r_pos by simp
  show ?thesis
  proof (cases "?r = 1")
    case True
    then show ?thesis using assms by simp
  next
    case False
    then have "2 \<le> ?r" using r_pos by linarith
    then show ?thesis using le nr lower by linarith
  qed
qed

lemma ddim_init_lookups_in_range:
  assumes "0 < n" and "n < N" and "int (length csf) = N"
    and "ddim_init n N csf = Inr self"
  shows "int (length (timesteps self)) = num_inference_steps self
         \<and> (\<forall>t \<in> set (timesteps self).
               0 < t \<and> t < int (length (cumulative_scale_factors self)))"
proof -
  have self: "self = \<lparr>num_inference_steps = n, num_train_timesteps = N,
      cumulative_scale_factors = csf,
      timesteps = rev (map (\<lambda>k. k * (N div n) + 1) (arange n))\<rparr>"
    using assms(1,4)
    by (simp add: ddim_init_def generate_timesteps_def and_then_def Let_def
        scheduler.extend_def ddim.fields_def)
  show ?thesis
    using assms(1-3) leading_timestep_bound [of _ n N]
    by (auto simp: self length_arange set_arange)
qed

text \<open>
  Claim C3. With 50 inference steps and 1000 training timesteps the generated sequence is
  \<open>981, 961, ..., 21, 1\<close>: the sequence \<open>1, 21, ..., 981\<close> (step ratio \<open>1000 div 50 = 20\<close>,
  offset 1) reversed. It has length 50, is strictly decreasing, and its minimum is 1.
\<close>

theorem ddim_timesteps_50_1000:
  "(let ts = [981, 961, 941, 921, 901, 881, 861, 841, 821, 801, 781, 761, 741, 721,
      701, 681, 661, 641, 621, 601, 581, 561, 541, 521, 501, 481, 461, 441,
      421, 401, 381, 361, 341, 321, 301, 281, 261, 241, 221, 201, 181, 161,
      141, 121, 101, 81, 61, 41, 21, 1]
    in generate_timesteps \<lparr>num_inference_steps = 50, num_train_timesteps = 1000,
                            cumulative_scale_factors = csf\<rparr> = Inr ts
       \<and> ts = rev (map (\<lambda>k. k * (1000 div 50) + 1) [0..49])
       \<and> length ts = 50 \<and> sorted_wrt (>) ts \<and> Min (set ts) = 1)"
proof -
  have up: "[0..49::int] = map int [0..<50]"
    by code_simp
  show ?thesis
    unfolding Let_def generate_timesteps_def arange_def
    apply (simp add: up upt_rec)
    done
qed



section \<open>Exchanging the first occurrence in a list\<close>

lemma replace_first_absent: "old \<notin> set xs \<Longrightarrow> replace_first old new xs = xs"
  by (induction xs) auto

lemma set_replace_first: "set (replace_first old new xs) \<subseteq> insert new (set xs)"
  by (induction xs) auto

lemma replace_first_mem: "old \<in> set xs \<Longrightarrow> new \<in> set (replace_first old new xs)"
  by (induction xs) auto

lemma count_replace_first_other:
  "x \<noteq> old \<Longrightarrow> x \<noteq> new \<Longrightarrow> count_list (replace_first old new xs) x = count_list xs x"
  by (induction xs) auto

lemma count_replace_first_new:
  "new \<notin> set xs \<Longrightarrow> old \<in> set xs \<Longrightarrow> old \<noteq> new
     \<Longrightarrow> count_list (replace_first old new xs) new = 1"
  by (induction xs) auto

lemma replace_first_as_map:
  "count_list xs old \<le> 1 \<Longrightarrow> replace_first old new xs = map (\<lambda>x. if x = old then new else x) xs"
proof (induction xs)
  case Nil
  then show ?case by simp
next
  case (Cons x xs)
  show ?case
  proof (cases "x = old")
    case True
    with Cons.prems have "count_list xs old = 0" by simp
    then have "old \<notin> set xs" by (simp add: count_list_0_iff)
    then have "map (\<lambda>x. if x = old then new else x) xs = xs"
      by (induction xs) auto
    with True show ?thesis by simp
  next
    case False
    with Cons show ?thesis by simp
  qed
qed

lemma map_undo_replace_first:
  "f new = old \<Longrightarrow> f old = old \<Longrightarrow> map f (replace_first old new xs) = map f xs"
  by (induction xs) auto

lemma count_map_fixed:
  "(\<And>x. f x = y \<longleftrightarrow> x = y) \<Longrightarrow> count_list (map f xs) y = count_list xs y"
  by (induction xs) auto

lemma restore_after_map:
  assumes "f a = a" and "f t = t" and "\<forall>x \<in> set ys. f x \<noteq> a"
  shows "replace_first a t (map f (replace_first t a ys)) = map f ys"
  using assms(3)
proof (induction ys)
  case Nil
  then show ?case by simp
next
  case (Cons y ys)
  show ?case
  proof (cases "y = t")
    case True
    then show ?thesis using assms(1,2) by simp
  next
    case False
    then show ?thesis using Cons by simp
  qed
qed

lemma replace_first_append_absent:
  "old \<notin> set pre \<Longrightarrow> replace_first old new (pre @ xs) = pre @ replace_first old new xs"
  by (induction pre) auto

section \<open>Properties of the adapter lifecycle\<close>

subsection \<open>What one injection does\<close>

lemma children_set_state [simp]: "children (set_state a st g) = children g"
  by (simp add: set_state_def)

lemma adapter_state_set_children [simp]: "adapter_state (set_children q cs g) = adapter_state g"
  by (simp add: set_children_def)

lemma children_set_children [simp]:
  "children (set_children q cs g) = (children g)(q := cs)"
  by (simp add: set_children_def)

lemma adapter_state_set_state [simp]:
  "adapter_state (set_state a st g) = (adapter_state g)(a := st)"
  by (simp add: set_state_def)

lemma Adapter_inject_Done:
  assumes "Adapter_inject a pa g = Done g'"
  shows "adapter_state g (adapter_node a) = NOT_INJECTED \<and>
         (\<exists>p. g' = set_state (adapter_node a) (INJECTED p)
                  (case p of None \<Rightarrow> g
                   | Some q \<Rightarrow> set_children q
                       (replace_first (target a) (adapter_node a) (children g q)) g)
              \<and> (\<forall>q. p = Some q \<longrightarrow> target a \<in> set (children g q)))"
proof (cases "adapter_state g (adapter_node a)")
  case NOT_INJECTED
  show ?thesis
  proof (cases "case pa of Some q \<Rightarrow> Some q | None \<Rightarrow> parent a")
    case None
    with NOT_INJECTED assms have "g' = set_state (adapter_node a) (INJECTED None) g"
      by (simp add: Adapter_inject_def)
    then show ?thesis using NOT_INJECTED by (intro conjI exI [of _ None]) auto
  next
    case (Some q)
    show ?thesis
    proof (cases "target a \<in> set (children g q)")
      case True
      with NOT_INJECTED Some assms
      have "g' = set_state (adapter_node a) (INJECTED (Some q))
                   (set_children q (replace_first (target a) (adapter_node a) (children g q)) g)"
        by (simp add: Adapter_inject_def Chain_replace_def and_next_def)
      then show ?thesis using NOT_INJECTED True by (intro conjI exI [of _ "Some q"]) auto
    next
      case False
      with NOT_INJECTED Some assms
      have "g' = set_state (adapter_node a) (INJECTED None) g"
        by (simp add: Adapter_inject_def)
      then show ?thesis using NOT_INJECTED by (intro conjI exI [of _ None]) auto
    qed
  qed
next
  case (INJECTED p)
  with assms show ?thesis by (simp add: Adapter_inject_def)
qed

lemma Adapter_inject_state:
  assumes "Adapter_inject a pa g = Done g'"
  shows "adapter_state g' (adapter_node a) \<noteq> NOT_INJECTED"
    and "n \<noteq> adapter_node a \<Longrightarrow> adapter_state g' n = adapter_state g n"
  using Adapter_inject_Done [OF assms] by (auto split: option.splits)


subsection \<open>What one ejection does\<close>

lemma Adapter_eject_cases:
  "Adapter_eject a g =
     (case adapter_state g (adapter_node a) of
        NOT_INJECTED \<Rightarrow> Raised InvalidAdapterState g
      | INJECTED None \<Rightarrow> Done (set_state (adapter_node a) NOT_INJECTED g)
      | INJECTED (Some q) \<Rightarrow>
          if adapter_node a \<in> set (children g q)
          then Done (set_state (adapter_node a) NOT_INJECTED
                 (set_children q (replace_first (adapter_node a) (target a) (children g q)) g))
          else Raised StructuralNotFound g)"
  by (simp add: Adapter_eject_def Chain_replace_def and_next_def
      split: injection_state.splits option.splits)


subsection \<open>The order of injection\<close>




subsection \<open>The order of ejection\<close>




subsection \<open>Injection followed by ejection\<close>

lemma original_other: "n \<notin> adapter_node ` set as \<Longrightarrow> original as n = n"
  by (induction as) auto

lemma original_range: "original as n = n \<or> original as n \<in> target ` set as"
  by (induction as) auto

lemma original_Cons_after:
  assumes "adapter_node a \<notin> adapter_node ` set as"
    and "\<forall>b \<in> set as. target b \<noteq> adapter_node a"
  shows "original (a # as) n
         = (if original as n = adapter_node a then target a else original as n)"
proof (cases "n = adapter_node a")
  case True
  then show ?thesis using assms(1) by (simp add: original_other)
next
  case False
  have "original as n \<noteq> adapter_node a"
    using original_range [of as n] False assms(2) by auto
  with False show ?thesis by simp
qed

lemma original_eq_fresh:
  assumes "y \<notin> adapter_node ` set as" and "\<forall>b \<in> set as. target b \<noteq> y"
  shows "original as x = y \<longleftrightarrow> x = y"
proof
  assume h: "original as x = y"
  show "x = y"
  proof (cases "x \<in> adapter_node ` set as")
    case True
    then have "original as x \<in> target ` set as"
      by (induction as) auto
    with h assms(2) show ?thesis by auto
  next
    case False
    then show ?thesis using h by (simp add: original_other)
  qed
next
  assume "x = y"
  then show "original as x = y" using assms(1) by (simp add: original_other)
qed

lemma inject_sub_adapters_distinct:
  assumes "inject_sub_adapters as g = Done g1"
  shows "(\<forall>a \<in> set as. adapter_state g (adapter_node a) = NOT_INJECTED)
       \<and> distinct (map adapter_node as)"
  using assms
proof (induction as arbitrary: g)
  case Nil
  then show ?case by simp
next
  case (Cons a as)
  from Cons.prems obtain g0 where a: "Adapter_inject a None g = Done g0"
    and rest: "inject_sub_adapters as g0 = Done g1"
    by (auto simp: and_next_def split: outcome.splits)
  from Cons.IH [OF rest] have ih: "\<forall>b \<in> set as. adapter_state g0 (adapter_node b) = NOT_INJECTED"
    and dist: "distinct (map adapter_node as)" by auto
  have a0: "adapter_state g (adapter_node a) = NOT_INJECTED"
    using Adapter_inject_Done [OF a] by blast
  have other: "adapter_node b \<noteq> adapter_node a" if "b \<in> set as" for b
    using ih that Adapter_inject_state(1) [OF a] by metis
  have "adapter_state g (adapter_node b) = NOT_INJECTED" if "b \<in> set as" for b
    using ih that other [OF that] Adapter_inject_state(2) [OF a] by metis
  moreover have "adapter_node a \<notin> adapter_node ` set as"
    using other by (metis imageE)
  ultimately show ?case using a0 dist by simp
qed

text \<open>The graph after the sub-adapters are injected, read against the graph before.\<close>

lemma inject_sub_adapters_effect:
  assumes "inject_sub_adapters as g = Done g1"
    and "\<forall>a \<in> set as. \<forall>q. adapter_node a \<notin> set (children g q)"
    and "\<forall>a \<in> set as. \<forall>b \<in> set as. adapter_node a \<noteq> target b"
  shows "(\<forall>q. map (original as) (children g1 q) = children g q)
       \<and> (\<forall>a \<in> set as. \<exists>p. adapter_state g1 (adapter_node a) = INJECTED p
             \<and> (\<forall>q. count_list (children g1 q) (adapter_node a) = (if p = Some q then 1 else 0)))
       \<and> (\<forall>n. n \<notin> adapter_node ` set as \<longrightarrow> adapter_state g1 n = adapter_state g n)"
  using assms
proof (induction as arbitrary: g)
  case Nil
  then show ?case by simp
next
  case (Cons a as)
  let ?A = "adapter_node a" and ?t = "target a"
  from Cons.prems(1) obtain g0 where a: "Adapter_inject a None g = Done g0"
    and rest: "inject_sub_adapters as g0 = Done g1"
    by (auto simp: and_next_def split: outcome.splits)
  from inject_sub_adapters_distinct [OF Cons.prems(1)]
  have A_new: "?A \<notin> adapter_node ` set as" by auto
  have A_not_target: "\<forall>b \<in> set as. target b \<noteq> ?A" and A_t: "?A \<noteq> ?t"
    using Cons.prems(3) by auto
  have A_fresh: "?A \<notin> set (children g q)" for q
    using Cons.prems(2) by simp
  from Adapter_inject_Done [OF a] obtain p where
    g0: "g0 = set_state ?A (INJECTED p)
           (case p of None \<Rightarrow> g
            | Some q \<Rightarrow> set_children q (replace_first ?t ?A (children g q)) g)"
    and resides: "\<forall>q. p = Some q \<longrightarrow> ?t \<in> set (children g q)"
    by blast
  have c0: "children g0 q
      = (if p = Some q then replace_first ?t ?A (children g q) else children g q)" for q
    by (cases p) (auto simp: g0)
  have s0: "adapter_state g0 = (adapter_state g)(?A := INJECTED p)"
    by (cases p) (auto simp: g0)
  have sub0: "set (children g0 q) \<subseteq> insert ?A (set (children g q))" for q
    using set_replace_first [of ?t ?A "children g q"] by (auto simp: c0)
  have fresh0: "\<forall>b \<in> set as. \<forall>q. adapter_node b \<notin> set (children g0 q)"
  proof (intro ballI allI)
    fix b q
    assume b: "b \<in> set as"
    then have "adapter_node b \<noteq> ?A" using A_new by (metis imageI)
    moreover have "adapter_node b \<notin> set (children g q)" using Cons.prems(2) b by simp
    ultimately show "adapter_node b \<notin> set (children g0 q)" using sub0 [of q] by auto
  qed
  have targets0: "\<forall>b \<in> set as. \<forall>c \<in> set as. adapter_node b \<noteq> target c"
    using Cons.prems(3) by simp
  from Cons.IH [OF rest fresh0 targets0]
  have ih1: "\<And>q. map (original as) (children g1 q) = children g0 q"
    and ih2: "\<forall>b \<in> set as. \<exists>p. adapter_state g1 (adapter_node b) = INJECTED p
             \<and> (\<forall>q. count_list (children g1 q) (adapter_node b) = (if p = Some q then 1 else 0))"
    and ih3: "\<And>n. n \<notin> adapter_node ` set as \<Longrightarrow> adapter_state g1 n = adapter_state g0 n"
    by auto
  have undo: "map (\<lambda>n. if n = ?A then ?t else n) (children g0 q) = children g q" for q
  proof -
    have id: "map (\<lambda>n. if n = ?A then ?t else n) (children g q) = children g q"
      using A_fresh [of q] by (intro map_idI) auto
    show ?thesis
      using map_undo_replace_first [of "\<lambda>n. if n = ?A then ?t else n" ?A ?t "children g q"] id
      by (auto simp: c0)
  qed
  have part1: "map (original (a # as)) (children g1 q) = children g q" for q
  proof -
    have "map (original (a # as)) (children g1 q)
        = map (\<lambda>n. if n = ?A then ?t else n) (map (original as) (children g1 q))"
      using original_Cons_after [OF A_new A_not_target] by (simp add: comp_def)
    then show ?thesis by (simp add: ih1 undo)
  qed
  have count0: "count_list (children g0 q) ?A = (if p = Some q then 1 else 0)" for q
    using A_fresh [of q] resides A_t count_replace_first_new [of ?A "children g q" ?t]
    by (auto simp: c0 count_list_0_iff)
  have countA: "count_list (children g1 q) ?A = (if p = Some q then 1 else 0)" for q
  proof -
    have "count_list (map (original as) (children g1 q)) ?A = count_list (children g1 q) ?A"
      by (rule count_map_fixed) (rule original_eq_fresh [OF A_new A_not_target])
    then show ?thesis using count0 [of q] by (simp add: ih1)
  qed
  have stateA: "adapter_state g1 ?A = INJECTED p"
    using ih3 [OF A_new] by (simp add: s0)
  have part2: "\<forall>b \<in> set (a # as). \<exists>p. adapter_state g1 (adapter_node b) = INJECTED p
             \<and> (\<forall>q. count_list (children g1 q) (adapter_node b) = (if p = Some q then 1 else 0))"
    using ih2 stateA countA by auto
  have part3: "\<forall>n. n \<notin> adapter_node ` set (a # as) \<longrightarrow> adapter_state g1 n = adapter_state g n"
    using ih3 by (auto simp: s0)
  from part1 part2 part3 show ?case by blast
qed

lemma map_original_Nil: "map (original []) xs = xs"
  by (induction xs) auto

text \<open>The graph after the sub-adapters are ejected: every slot holds the original.\<close>

lemma eject_sub_adapters_effect:
  assumes "\<forall>a \<in> set as. \<exists>p. adapter_state g (adapter_node a) = INJECTED p
             \<and> (\<forall>q. count_list (children g q) (adapter_node a) = (if p = Some q then 1 else 0))"
    and "distinct (map adapter_node as)"
    and "\<forall>a \<in> set as. \<forall>b \<in> set as. adapter_node a \<noteq> target b"
  shows "eject_sub_adapters as g
         = Done \<lparr>children = (\<lambda>q. map (original as) (children g q)),
                 adapter_state = (\<lambda>n. if n \<in> adapter_node ` set as then NOT_INJECTED
                                        else adapter_state g n)\<rparr>"
  using assms
proof (induction as arbitrary: g)
  case Nil
  show ?case by (simp add: map_original_Nil)
next
  case (Cons a as)
  let ?A = "adapter_node a" and ?t = "target a"
  from Cons.prems(1) obtain p where st: "adapter_state g ?A = INJECTED p"
    and cnt: "\<And>q. count_list (children g q) ?A = (if p = Some q then 1 else 0)"
    by auto
  have A_new: "?A \<notin> adapter_node ` set as" using Cons.prems(2) by simp
  have t_plain: "?t \<notin> adapter_node ` set as" using Cons.prems(3) by auto
  define g0 where "g0 = set_state ?A NOT_INJECTED
      (case p of None \<Rightarrow> g
       | Some q \<Rightarrow> set_children q (replace_first ?A ?t (children g q)) g)"
  have eject_a: "Adapter_eject a g = Done g0"
  proof (cases p)
    case None
    then show ?thesis using st by (simp add: Adapter_eject_cases g0_def)
  next
    case (Some q)
    have "count_list (children g q) ?A = 1" using cnt [of q] Some by simp
    then have "?A \<in> set (children g q)"
      using count_list_0_iff [of "children g q" ?A] by auto
    then show ?thesis using st Some by (simp add: Adapter_eject_cases g0_def)
  qed
  have c0: "children g0 q
      = (if p = Some q then replace_first ?A ?t (children g q) else children g q)" for q
    by (cases p) (auto simp: g0_def)
  have s0: "adapter_state g0 = (adapter_state g)(?A := NOT_INJECTED)"
    by (cases p) (auto simp: g0_def)
  have hyp0: "\<forall>b \<in> set as. \<exists>p. adapter_state g0 (adapter_node b) = INJECTED p
        \<and> (\<forall>q. count_list (children g0 q) (adapter_node b) = (if p = Some q then 1 else 0))"
  proof
    fix b
    assume b: "b \<in> set as"
    then have ne: "adapter_node b \<noteq> ?A" using A_new by (metis imageI)
    have nt: "adapter_node b \<noteq> ?t" using Cons.prems(3) b by simp
    from Cons.prems(1) b obtain pb where
      "adapter_state g (adapter_node b) = INJECTED pb"
      "\<And>q. count_list (children g q) (adapter_node b) = (if pb = Some q then 1 else 0)"
      by auto
    then show "\<exists>p. adapter_state g0 (adapter_node b) = INJECTED p
        \<and> (\<forall>q. count_list (children g0 q) (adapter_node b) = (if p = Some q then 1 else 0))"
      using ne nt by (auto simp: s0 c0 count_replace_first_other intro!: exI [of _ pb])
  qed
  have dist0: "distinct (map adapter_node as)" using Cons.prems(2) by simp
  have targets0: "\<forall>b \<in> set as. \<forall>c \<in> set as. adapter_node b \<noteq> target c"
    using Cons.prems(3) by simp
  note ih = Cons.IH [OF hyp0 dist0 targets0]
  have kids: "map (original as) (children g0 q) = map (original (a # as)) (children g q)" for q
  proof (cases "p = Some q")
    case True
    have "count_list (children g q) ?A \<le> 1" using cnt [of q] by simp
    then have "children g0 q = map (\<lambda>x. if x = ?A then ?t else x) (children g q)"
      using True by (simp add: c0 replace_first_as_map)
    moreover have "original as (if n = ?A then ?t else n) = original (a # as) n" for n
      using t_plain by (simp add: original_other)
    ultimately show ?thesis by (simp add: comp_def)
  next
    case False
    then have "?A \<notin> set (children g q)"
      using cnt [of q] by (simp add: count_list_0_iff)
    then have "map (original as) (children g q) = map (original (a # as)) (children g q)"
      by (intro map_cong) auto
    then show ?thesis using False by (simp add: c0)
  qed
  have states: "(\<lambda>n. if n \<in> adapter_node ` set as then NOT_INJECTED else adapter_state g0 n)
      = (\<lambda>n. if n \<in> adapter_node ` set (a # as) then NOT_INJECTED else adapter_state g n)"
    by (auto simp: s0 fun_eq_iff)
  have "eject_sub_adapters (a # as) g = eject_sub_adapters as g0"
    using eject_a by (simp add: and_next_def)
  also note ih
  finally show ?case by (simp only: kids states)
qed

lemma graph_eqI: "children g = children h \<Longrightarrow> adapter_state g = adapter_state h \<Longrightarrow> g = h"
  for g h :: graph
  by (cases g, cases h) simp

text \<open>Injecting the image-prompt adapter and ejecting it again gives the graph back.\<close>

lemma IPAdapter_roundtrip:
  assumes inj: "IPAdapter_inject self parent_arg g = Done g3"
    and new: "new_modules self g"
  shows "IPAdapter_eject self g3 = Done g"
proof -
  let ?subs = "sub_adapters self"
  let ?T = "target self" and ?B = "adapter_node self"
  let ?proj = "pooled_text_embedding_proj self"
  let ?pooled = "use_pooled_text_embedding self"
  let ?orig = "original ?subs"
  define pre where "pre q = (if ?pooled \<and> q = ?T then [?proj] else [])" for q
  \<comment> \<open>what the hypothesis on new modules gives\<close>
  have fresh_sub: "\<forall>a \<in> set ?subs. \<forall>q. adapter_node a \<notin> set (children g q)"
    and sub_targets: "\<forall>a \<in> set ?subs. \<forall>b \<in> set ?subs. adapter_node a \<noteq> target b"
    and sub_not_T: "\<forall>a \<in> set ?subs. adapter_node a \<noteq> ?T"
    and sub_not_proj: "\<forall>a \<in> set ?subs. adapter_node a \<noteq> ?proj"
    and B_fresh: "\<And>q. ?B \<notin> set (children g q)"
    and B_not_T: "?B \<noteq> ?T"
    and B_not_proj: "?B \<noteq> ?proj"
    and proj_not_T: "?proj \<noteq> ?T"
    using new by (auto simp: new_modules_def adapter_nodes_def adapter_targets_def)
  have T_plain: "?T \<notin> adapter_node ` set ?subs" using sub_not_T by auto
  have proj_plain: "?proj \<notin> adapter_node ` set ?subs" using sub_not_proj by auto
  \<comment> \<open>the injection, step by step\<close>
  define g2 where "g2 g1 = (if ?pooled then Chain_insert ?T 0 ?proj g1 else g1)" for g1
  from inj obtain g1 where subs: "inject_sub_adapters ?subs g = Done g1"
    and own: "Adapter_inject self parent_arg (g2 g1) = Done g3"
    by (auto simp: IPAdapter_inject_def and_next_def g2_def split: outcome.splits if_splits)
  have c2: "children (g2 g1) q = pre q @ children g1 q" for q
    by (simp add: g2_def pre_def Chain_insert_def)
  have s2: "adapter_state (g2 g1) = adapter_state g1"
    by (simp add: g2_def Chain_insert_def)
  from inject_sub_adapters_effect [OF subs fresh_sub sub_targets]
  have e1: "\<And>q. map ?orig (children g1 q) = children g q"
    and e2: "\<forall>a \<in> set ?subs. \<exists>p. adapter_state g1 (adapter_node a) = INJECTED p
             \<and> (\<forall>q. count_list (children g1 q) (adapter_node a) = (if p = Some q then 1 else 0))"
    and e3: "\<And>n. n \<notin> adapter_node ` set ?subs \<Longrightarrow> adapter_state g1 n = adapter_state g n"
    by auto
  from inject_sub_adapters_distinct [OF subs]
  have subs_were_out: "\<forall>a \<in> set ?subs. adapter_state g (adapter_node a) = NOT_INJECTED"
    and dist: "distinct (map adapter_node ?subs)" by auto
  from Adapter_inject_Done [OF own] obtain pB where
    B_was_out: "adapter_state (g2 g1) ?B = NOT_INJECTED"
    and g3: "g3 = set_state ?B (INJECTED pB)
               (case pB of None \<Rightarrow> g2 g1
                | Some q \<Rightarrow> set_children q (replace_first ?T ?B (children (g2 g1) q)) (g2 g1))"
    and resides: "\<forall>q. pB = Some q \<longrightarrow> ?T \<in> set (children (g2 g1) q)"
    by blast
  have B_plain: "?B \<notin> adapter_node ` set ?subs"
  proof
    assume "?B \<in> adapter_node ` set ?subs"
    then obtain a where "a \<in> set ?subs" "adapter_node a = ?B" by auto
    with e2 have "adapter_state g1 ?B \<noteq> NOT_INJECTED" by force
    with B_was_out show False by (simp add: s2)
  qed
  define zs where
    "zs q = (if pB = Some q then replace_first ?T ?B (children g1 q) else children g1 q)" for q
  have T_not_pre: "?T \<notin> set (pre q)" for q
    using proj_not_T by (simp add: pre_def)
  have c3: "children g3 q = pre q @ zs q" for q
    by (cases pB) (auto simp: g3 c2 zs_def replace_first_append_absent [OF T_not_pre])
  have s3: "adapter_state g3 = (adapter_state g1)(?B := INJECTED pB)"
    by (cases pB) (auto simp: g3 s2)
  \<comment> \<open>the sub-adapters are ejected\<close>
  have hyp3: "\<forall>a \<in> set ?subs. \<exists>p. adapter_state g3 (adapter_node a) = INJECTED p
      \<and> (\<forall>q. count_list (children g3 q) (adapter_node a) = (if p = Some q then 1 else 0))"
  proof
    fix a
    assume a: "a \<in> set ?subs"
    then have neB: "adapter_node a \<noteq> ?B" using B_plain by (metis imageI)
    have neT: "adapter_node a \<noteq> ?T" and neP: "adapter_node a \<noteq> ?proj"
      using a sub_not_T sub_not_proj by auto
    from e2 a obtain p where p: "adapter_state g1 (adapter_node a) = INJECTED p"
      "\<And>q. count_list (children g1 q) (adapter_node a) = (if p = Some q then 1 else 0)"
      by auto
    have "count_list (pre q) (adapter_node a) = 0" for q
      using neP by (simp add: pre_def)
    moreover have "count_list (zs q) (adapter_node a) = count_list (children g1 q) (adapter_node a)"
      for q using neB neT by (simp add: zs_def count_replace_first_other)
    ultimately have "count_list (children g3 q) (adapter_node a) = (if p = Some q then 1 else 0)"
      for q by (simp add: c3 p(2))
    moreover have "adapter_state g3 (adapter_node a) = INJECTED p"
      using neB p(1) by (simp add: s3)
    ultimately show "\<exists>p. adapter_state g3 (adapter_node a) = INJECTED p
      \<and> (\<forall>q. count_list (children g3 q) (adapter_node a) = (if p = Some q then 1 else 0))"
      by blast
  qed
  define g4 where "g4 = \<lparr>children = (\<lambda>q. map ?orig (children g3 q)),
      adapter_state = (\<lambda>n. if n \<in> adapter_node ` set ?subs then NOT_INJECTED
                             else adapter_state g3 n)\<rparr>"
  have ej_subs: "eject_sub_adapters ?subs g3 = Done g4"
    unfolding g4_def by (rule eject_sub_adapters_effect [OF hyp3 dist sub_targets])
  have pre_orig: "map ?orig (pre q) = pre q" for q
    using proj_plain by (simp add: pre_def original_other)
  have c4: "children g4 q = pre q @ map ?orig (zs q)" for q
    by (simp add: g4_def c3 pre_orig)
  \<comment> \<open>the projector is removed\<close>
  define g5 where "g5 = \<lparr>children = (\<lambda>q. map ?orig (zs q)), adapter_state = adapter_state g4\<rparr>"
  have pop: "(if ?pooled then Chain_pop ?T 0 g4 else Done g4) = Done g5"
  proof (cases ?pooled)
    case True
    have "children g4 ?T = ?proj # map ?orig (zs ?T)"
      using True by (simp add: c4 pre_def)
    moreover have "children g4 q = map ?orig (zs q)" if "q \<noteq> ?T" for q
      using that by (simp add: c4 pre_def)
    ultimately have "set_children ?T (map ?orig (zs ?T)) g4 = g5"
      by (intro graph_eqI) (auto simp: g5_def fun_eq_iff)
    then show ?thesis
      using True \<open>children g4 ?T = ?proj # map ?orig (zs ?T)\<close> by (simp add: Chain_pop_def)
  next
    case False
    then have "g4 = g5"
      by (intro graph_eqI) (auto simp: g5_def c4 pre_def fun_eq_iff)
    with False show ?thesis by simp
  qed
  \<comment> \<open>the adapter is ejected\<close>
  have s5: "adapter_state g5 ?B = INJECTED pB"
    using B_plain by (simp add: g5_def g4_def s3)
  have origB: "?orig ?B = ?B" using B_plain by (rule original_other)
  have origT: "?orig ?T = ?T" using T_plain by (rule original_other)
  have no_B: "\<forall>x \<in> set (children g1 q). ?orig x \<noteq> ?B" for q
  proof
    fix x
    assume "x \<in> set (children g1 q)"
    then have "?orig x \<in> set (map ?orig (children g1 q))" by simp
    then have "?orig x \<in> set (children g q)" by (simp only: e1)
    then show "?orig x \<noteq> ?B" using B_fresh [of q] by auto
  qed
  have restored: "map ?orig (children g1 q) = children g q" for q by (rule e1)
  have final_state:
    "(\<lambda>n. if n = ?B then NOT_INJECTED else adapter_state g5 n) = adapter_state g"
  proof
    fix n
    show "(if n = ?B then NOT_INJECTED else adapter_state g5 n) = adapter_state g n"
    proof (cases "n = ?B")
      case True
      have "adapter_state g ?B = adapter_state g1 ?B" using e3 [OF B_plain] by simp
      then show ?thesis using True B_was_out by (simp add: s2)
    next
      case False
      show ?thesis
      proof (cases "n \<in> adapter_node ` set ?subs")
        case True
        then have "adapter_state g n = NOT_INJECTED" using subs_were_out by auto
        then show ?thesis using True False by (simp add: g5_def g4_def)
      next
        case outside: False
        then show ?thesis using False e3 [OF outside] by (simp add: g5_def g4_def s3)
      qed
    qed
  qed
  have own_eject: "Adapter_eject self g5 = Done g"
  proof (cases pB)
    case None
    have "set_state ?B NOT_INJECTED g5 = g"
    proof (rule graph_eqI)
      show "children (set_state ?B NOT_INJECTED g5) = children g"
        using None by (simp add: g5_def zs_def restored)
      show "adapter_state (set_state ?B NOT_INJECTED g5) = adapter_state g"
        using final_state by (simp add: fun_eq_iff)
    qed
    then show ?thesis using s5 None by (simp add: Adapter_eject_cases)
  next
    case (Some qB)
    have "?T \<in> set (children (g2 g1) qB)" using resides Some by simp
    then have T_in: "?T \<in> set (children g1 qB)"
      using T_not_pre [of qB] by (simp add: c2)
    have kids5: "children g5 qB = map ?orig (replace_first ?T ?B (children g1 qB))"
      using Some by (simp add: g5_def zs_def)
    have "?B \<in> set (replace_first ?T ?B (children g1 qB))"
      using T_in by (rule replace_first_mem)
    then have "?orig ?B \<in> set (children g5 qB)"
      unfolding kids5 by simp
    then have B_in: "?B \<in> set (children g5 qB)" by (simp only: origB)
    have slot: "replace_first ?B ?T (children g5 qB) = children g qB"
      unfolding kids5
      using restore_after_map [of ?orig ?B ?T "children g1 qB", OF origB origT no_B]
      by (simp only: restored)
    have "set_state ?B NOT_INJECTED (set_children qB (children g qB) g5) = g"
    proof (rule graph_eqI)
      show "children (set_state ?B NOT_INJECTED (set_children qB (children g qB) g5))
          = children g"
        using Some by (auto simp: g5_def zs_def restored fun_eq_iff)
      show "adapter_state (set_state ?B NOT_INJECTED (set_children qB (children g qB) g5))
          = adapter_state g"
        using final_state by (simp add: fun_eq_iff)
    qed
    then show ?thesis using s5 Some B_in slot by (simp add: Adapter_eject_cases)
  qed
  show ?thesis
    using ej_subs pop own_eject by (simp add: IPAdapter_eject_def and_next_def)
qed

lemma replace_first_undo:
  "new \<notin> set xs \<Longrightarrow> replace_first new old (replace_first old new xs) = xs"
  by (induction xs) auto

text \<open>The same for any single adapter whose node is new.\<close>

lemma Adapter_roundtrip:
  assumes "Adapter_inject a parent_arg g = Done g1"
    and "\<forall>q. adapter_node a \<notin> set (children g q)"
  shows "Adapter_eject a g1 = Done g"
proof -
  let ?A = "adapter_node a" and ?t = "target a"
  from Adapter_inject_Done [OF assms(1)] obtain p where
    out: "adapter_state g ?A = NOT_INJECTED"
    and g1: "g1 = set_state ?A (INJECTED p)
               (case p of None \<Rightarrow> g
                | Some q \<Rightarrow> set_children q (replace_first ?t ?A (children g q)) g)"
    and resides: "\<forall>q. p = Some q \<longrightarrow> ?t \<in> set (children g q)"
    by blast
  have state: "(adapter_state g)(?A := NOT_INJECTED) = adapter_state g"
    using out by (simp add: fun_eq_iff)
  show ?thesis
  proof (cases p)
    case None
    have "set_state ?A NOT_INJECTED g1 = g"
      using None state by (intro graph_eqI) (simp_all add: g1)
    then show ?thesis using None by (simp add: Adapter_eject_cases g1)
  next
    case (Some q)
    have in_slot: "?A \<in> set (replace_first ?t ?A (children g q))"
      using resides Some by (simp add: replace_first_mem)
    have undo: "replace_first ?A ?t (replace_first ?t ?A (children g q)) = children g q"
      using assms(2) by (simp add: replace_first_undo)
    have "set_state ?A NOT_INJECTED (set_children q (children g q) g1) = g"
      using Some state by (intro graph_eqI) (simp_all add: g1)
    then show ?thesis using Some in_slot undo by (simp add: Adapter_eject_cases g1)
  qed
qed

text \<open>
  Claim C1. For every adapter whose node is new to the graph, \<open>inject\<close> followed by
  \<open>eject\<close> gives back the graph: every chain, the parent among them, has the child list
  it had before the injection, element for element (nodes are object identities). This
  holds for \<open>IPAdapter\<close> with its sub-adapters too, also when \<open>use_pooled_text_embedding\<close> is
  set: the projector prepended at injection is removed again, and since the graph after
  the round trip is the graph before it, the adapter is in no chain and repeating the
  round trip leaves no further node behind.
\<close>

theorem inject_eject_roundtrip:
  "(Adapter_inject a parent_arg g = Done g1 \<and> (\<forall>q. adapter_node a \<notin> set (children g q))
      \<longrightarrow> Adapter_eject a g1 = Done g \<and> (\<forall>q. children (store_of (Adapter_eject a g1)) q = children g q))
   \<and> (IPAdapter_inject self parent_arg' g = Done g3 \<and> new_modules self g
      \<longrightarrow> IPAdapter_eject self g3 = Done g
          \<and> (\<forall>q. children (store_of (IPAdapter_eject self g3)) q = children g q)
          \<and> (\<forall>q. adapter_node self \<notin> set (children (store_of (IPAdapter_eject self g3)) q)
                 \<and> count_list (children (store_of (IPAdapter_eject self g3)) q)
                      (pooled_text_embedding_proj self)
                    = count_list (children g q) (pooled_text_embedding_proj self)))"
proof (intro conjI impI)
  assume h: "Adapter_inject a parent_arg g = Done g1 \<and> (\<forall>q. adapter_node a \<notin> set (children g q))"
  then show e: "Adapter_eject a g1 = Done g" using Adapter_roundtrip by blast
  show "\<forall>q. children (store_of (Adapter_eject a g1)) q = children g q"
    by (simp add: e store_of_def)
next
  assume h: "IPAdapter_inject self parent_arg' g = Done g3 \<and> new_modules self g"
  then show e: "IPAdapter_eject self g3 = Done g" using IPAdapter_roundtrip by blast
  show "\<forall>q. children (store_of (IPAdapter_eject self g3)) q = children g q"
    by (simp add: e store_of_def)
  show "\<forall>q. adapter_node self \<notin> set (children (store_of (IPAdapter_eject self g3)) q)
          \<and> count_list (children (store_of (IPAdapter_eject self g3)) q)
                      (pooled_text_embedding_proj self)
                    = count_list (children g q) (pooled_text_embedding_proj self)"
    using h by (simp add: e store_of_def new_modules_def adapter_nodes_def)
qed

text \<open>The round trip at the example: the injection succeeds and changes the children of
  the parent \<open>0\<close> and of the target \<open>1\<close>, and the ejection restores both.\<close>

theorem inject_eject_roundtrip_witness:
  "raised (IPAdapter_inject example_ip_adapter None example_graph) = None
   \<and> new_modules example_ip_adapter example_graph
   \<and> children (store_of (IPAdapter_inject example_ip_adapter None example_graph)) 0 = [10]
   \<and> children (store_of (IPAdapter_inject example_ip_adapter None example_graph)) 1 = [20, 2, 11]
   \<and> IPAdapter_eject example_ip_adapter
        (store_of (IPAdapter_inject example_ip_adapter None example_graph))
       = Done example_graph
   \<and> children example_graph 0 = [1] \<and> children example_graph 1 = [2, 3]"
proof -
  have run: "raised (IPAdapter_inject example_ip_adapter None example_graph) = None
      \<and> children (store_of (IPAdapter_inject example_ip_adapter None example_graph)) 0 = [10]
      \<and> children (store_of (IPAdapter_inject example_ip_adapter None example_graph)) 1
          = [20, 2, 11]"
    by (simp add: example_graph_def example_ip_adapter_def example_sub_adapter_def
        IPAdapter_inject_def Adapter_inject_def Chain_insert_def Chain_replace_def
        set_children_def set_state_def and_next_def raised_def store_of_def)
  have new: "new_modules example_ip_adapter example_graph"
    by (simp add: new_modules_def adapter_nodes_def adapter_targets_def example_graph_def
        example_ip_adapter_def example_sub_adapter_def)
  have before: "children example_graph 0 = [1] \<and> children example_graph 1 = [2, 3]"
    by (simp add: example_graph_def)
  from run obtain g3 where g3: "IPAdapter_inject example_ip_adapter None example_graph = Done g3"
    by (cases "IPAdapter_inject example_ip_adapter None example_graph") (auto simp: raised_def)
  from inject_eject_roundtrip [of example_ip_adapter None example_graph g3
      example_ip_adapter None g3] g3 new
  have "IPAdapter_eject example_ip_adapter g3 = Done example_graph" by blast
  with run new before g3 show ?thesis by (simp add: store_of_def)
qed

section \<open>Properties of the scale\<close>


lemma find_first_holds: "find_first p ms = Some (Module l cs) \<Longrightarrow> p l"
  by (induction p ms rule: find_first.induct) (auto split: if_splits option.splits)




text \<open>Setting the scale succeeds when every sub-adapter has a multiplier, as every
  sub-adapter that the constructor built has.\<close>

lemma CrossAttentionAdapter_set_scale_total:
  "effective_multiplier a \<noteq> None \<Longrightarrow> \<exists>a'. CrossAttentionAdapter_set_scale v a = Inr a'"
proof -
  assume "effective_multiplier a \<noteq> None"
  then obtain l cs m where ica: "find_first is_ImageCrossAttention (body a) = Some (Module l cs)"
    and mult: "find_first is_Multiply cs = Some m"
    by (auto simp: effective_multiplier_def split: option.splits module.splits)
  then show ?thesis
    by (simp add: CrossAttentionAdapter_set_scale_def image_cross_attention_def
        ensure_find_def and_then_def)
qed

lemma set_scale_all_total:
  "\<forall>a \<in> set as. effective_multiplier a \<noteq> None \<Longrightarrow> \<exists>as'. set_scale_all v as = Inr as'"
proof (induction as)
  case Nil
  then show ?case by simp
next
  case (Cons a as)
  then obtain a' as' where "CrossAttentionAdapter_set_scale v a = Inr a'"
    "set_scale_all v as = Inr as'"
    using CrossAttentionAdapter_set_scale_total [of a v] by auto
  then show ?case by (simp add: and_then_def)
qed





lemma find_first_in_inserted_sum:
  assumes "find_first q ms = None" and "find_first p ms = Some m"
    and "\<not> q (Layer ''Sum'')" and "q l'"
  shows "find_first q (update_first p (\<lambda>m. Module (Layer ''Sum'') [m, Module l' cs']) ms)
         = Some (Module l' cs')"
  using assms(1,2)
proof (induction p ms rule: find_first.induct)
  case (1 p)
  then show ?case by simp
next
  case (2 p k ks ms)
  from "2.prems"(1) have nq: "\<not> q k" and nks: "find_first q ks = None"
    and nms: "find_first q ms = None"
    by (auto split: if_splits option.splits)
  show ?case
  proof (cases "p k")
    case True
    then show ?thesis using nq nks assms(3,4) by simp
  next
    case False
    show ?thesis
    proof (cases "find_first p ks")
      case None
      with False "2.prems" "2.IH"(2) nq nks nms show ?thesis by simp
    next
      case (Some m')
      with False "2.prems" "2.IH"(1) nq nks show ?thesis by simp
    qed
  qed
qed

lemma ImageCrossAttention_init_multiplier:
  "\<exists>cs ks. ImageCrossAttention_init scale uts upe = Module (ImageCrossAttention scale) cs
     \<and> find_first is_Multiply cs = Some (Module (Multiply scale) ks)"
  by (simp add: ImageCrossAttention_init_def context_chain_def Let_def)

text \<open>A sub-adapter built by the constructor around an attention layer that holds no
  \<open>ImageCrossAttention\<close> yet has the scale it was built with as its multiplier.\<close>

lemma CrossAttentionAdapter_init_multiplier:
  assumes "CrossAttentionAdapter_init n t p (Module l cs) scale uts upe = Inr a"
    and "\<not> is_ImageCrossAttention l"
    and "find_first is_ImageCrossAttention cs = None"
  shows "effective_multiplier a = Some scale \<and> CrossAttentionAdapter_scale a = scale"
proof -
  from assms(1) obtain sdp where sdp: "find_first is_ScaledDotProductAttention cs = Some sdp"
    and a: "a = \<lparr>adapter_node = n, target = t, parent = p, scale_attr = scale,
        body = [Module l (update_first is_ScaledDotProductAttention
           (\<lambda>m. Module (Layer ''Sum'') [m, ImageCrossAttention_init scale uts upe]) cs)]\<rparr>"
    by (auto simp: CrossAttentionAdapter_init_def and_then_def ensure_find_def Let_def
        split: option.splits)
  from ImageCrossAttention_init_multiplier [of scale uts upe] obtain ics ks where
    ica: "ImageCrossAttention_init scale uts upe = Module (ImageCrossAttention scale) ics"
    and mult: "find_first is_Multiply ics = Some (Module (Multiply scale) ks)" by blast
  have "find_first is_ImageCrossAttention
          (update_first is_ScaledDotProductAttention
             (\<lambda>m. Module (Layer ''Sum'') [m, Module (ImageCrossAttention scale) ics]) cs)
        = Some (Module (ImageCrossAttention scale) ics)"
    by (rule find_first_in_inserted_sum [OF assms(3) sdp]) simp_all
  then show ?thesis
    using assms(2) mult
    by (simp add: a ica effective_multiplier_def CrossAttentionAdapter_scale_def)
qed

text \<open>The sub-adapter of the example is the one the constructor builds around the
  example attention layer.\<close>

lemma example_sub_adapter_built:
  "CrossAttentionAdapter_init 11 3 (Some 1) example_attention 1 False True
     = Inr example_sub_adapter"
  by (simp add: CrossAttentionAdapter_init_def example_attention_def example_sub_adapter_def
      ensure_find_def and_then_def is_ScaledDotProductAttention_def)





section \<open>Properties of the weight loading\<close>

lemma load_state_dict_Inl:
  "load_state_dict params supplied strict = Inl e \<longleftrightarrow>
     e = WeightMismatch \<and> (size_mismatch params supplied \<or> strict \<and> unmatched params supplied)"
  by (auto simp: load_state_dict_def)

lemma load_sub_adapters_Inl:
  "load_sub_adapters i ps w = Inl e \<longleftrightarrow>
     e = WeightMismatch
     \<and> (\<exists>j < length ps.
           size_mismatch (ps ! j) (under_prefix (''ip_adapter.'' @ format_03d (i + j) @ ''.'') w))"
proof (induction ps arbitrary: i)
  case Nil
  then show ?case by simp
next
  case (Cons p ps)
  let ?clash = "\<lambda>i j qs. size_mismatch (qs ! j)
      (under_prefix (''ip_adapter.'' @ format_03d (i + j) @ ''.'') w)"
  have split: "(\<exists>j < length (p # ps). ?clash i j (p # ps))
      \<longleftrightarrow> ?clash i 0 (p # ps) \<or> (\<exists>j < length ps. ?clash (Suc i) j ps)"
  proof
    assume "\<exists>j < length (p # ps). ?clash i j (p # ps)"
    then obtain j where j: "j < length (p # ps)" "?clash i j (p # ps)" by blast
    show "?clash i 0 (p # ps) \<or> (\<exists>j < length ps. ?clash (Suc i) j ps)"
    proof (cases j)
      case 0
      with j show ?thesis by simp
    next
      case (Suc k)
      with j have "k < length ps \<and> ?clash (Suc i) k ps" by simp
      then show ?thesis by blast
    qed
  next
    assume "?clash i 0 (p # ps) \<or> (\<exists>j < length ps. ?clash (Suc i) j ps)"
    then show "\<exists>j < length (p # ps). ?clash i j (p # ps)"
    proof
      assume "?clash i 0 (p # ps)"
      then show ?thesis by (intro exI [of _ 0]) simp
    next
      assume "\<exists>j < length ps. ?clash (Suc i) j ps"
      then obtain k where "k < length ps" "?clash (Suc i) k ps" by blast
      then show ?thesis by (intro exI [of _ "Suc k"]) simp
    qed
  qed
  show ?case
  proof (cases "size_mismatch p (under_prefix (''ip_adapter.'' @ format_03d i @ ''.'') w)")
    case True
    then have "load_sub_adapters i (p # ps) w = Inl WeightMismatch"
      by (simp add: load_state_dict_def and_then_def)
    moreover have "?clash i 0 (p # ps)" using True by simp
    ultimately show ?thesis unfolding split by auto
  next
    case False
    then have "load_sub_adapters i (p # ps) w = load_sub_adapters (Suc i) ps w"
      by (simp add: load_state_dict_def and_then_def)
    moreover have "\<not> ?clash i 0 (p # ps)" using False by simp
    ultimately show ?thesis unfolding split using Cons.IH [of "Suc i"] by simp
  qed
qed

text \<open>
  Claim C4, as stated, makes every unmatched key or parameter fatal under \<open>strict=True\<close>,
  in every block. With \<open>strict=True\<close>, a supplied key \<open>image_proj.extra\<close> that matches no
  parameter is caught and printed, and the construction goes on; a supplied key
  \<open>ip_adapter.000.extra\<close> that matches no parameter is not even reported; and a weight map
  that leaves both parameters of the sub-adapter unmatched loads without an error.
\<close>

theorem IPAdapter_init_weights_tolerated:
  "unmatched (image_proj_params example_parameters)
     (under_prefix ''image_proj.'' ((''image_proj.extra'', [1]) # example_weights))
   \<and> IPAdapter_init_weights example_parameters
       (Some ((''image_proj.extra'', [1]) # example_weights)) True True = Inr [WeightMismatch]
   \<and> unmatched (hd (sub_adapters_params example_parameters))
       (under_prefix ''ip_adapter.000.'' ((''ip_adapter.000.extra'', [1]) # example_weights))
   \<and> IPAdapter_init_weights example_parameters
       (Some ((''ip_adapter.000.extra'', [1]) # example_weights)) True True = Inr []
   \<and> unmatched (hd (sub_adapters_params example_parameters))
       (under_prefix ''ip_adapter.000.'' [hd example_weights])
   \<and> IPAdapter_init_weights example_parameters (Some [hd example_weights]) True False = Inr []"
  by code_simp

text \<open>
  Claim C4, amended. When an \<open>IPAdapter\<close> is constructed with a weight map, an unmatched
  supplied key or an unmatched required parameter is fatal only in the
  \<open>pooled_text_embedding_proj.\<close> block, and there only with \<open>strict=True\<close> and
  \<open>use_pooled_text_embedding\<close> set. In the \<open>image_proj.\<close> block every exception of the load
  is caught and printed, and the blocks \<open>ip_adapter.{i:03d}.\<close> are loaded with
  \<open>strict=False\<close>: there only a tensor of the wrong shape for its parameter is fatal, as it
  is in the projector's block.
\<close>

theorem IPAdapter_init_weights_fatal:
  "(IPAdapter_init_weights self (Some w) strict use_pooled = Inl e \<longleftrightarrow>
      e = WeightMismatch
      \<and> ((\<exists>j < length (sub_adapters_params self).
             size_mismatch (sub_adapters_params self ! j)
               (under_prefix (''ip_adapter.'' @ format_03d j @ ''.'') w))
         \<or> use_pooled
           \<and> (size_mismatch (pooled_text_embedding_proj_params self)
                 (under_prefix ''pooled_text_embedding_proj.'' w)
              \<or> strict \<and> unmatched (pooled_text_embedding_proj_params self)
                   (under_prefix ''pooled_text_embedding_proj.'' w))))
   \<and> (IPAdapter_init_weights self (Some w) strict use_pooled = Inr printed \<longleftrightarrow>
      (\<forall>e. IPAdapter_init_weights self (Some w) strict use_pooled \<noteq> Inl e)
      \<and> printed = (if size_mismatch (image_proj_params self) (under_prefix ''image_proj.'' w)
                       \<or> strict \<and> unmatched (image_proj_params self)
                            (under_prefix ''image_proj.'' w)
                    then [WeightMismatch] else []))"
proof -
  let ?subs = "load_sub_adapters 0 (sub_adapters_params self) w"
  let ?pooled = "load_state_dict (pooled_text_embedding_proj_params self)
      (under_prefix ''pooled_text_embedding_proj.'' w) strict"
  let ?printed = "case load_state_dict (image_proj_params self)
      (under_prefix ''image_proj.'' w) strict of Inl e \<Rightarrow> [e] | Inr loaded \<Rightarrow> []"
  have run: "IPAdapter_init_weights self (Some w) strict use_pooled
      = and_then ?subs (\<lambda>u. if use_pooled then and_then ?pooled (\<lambda>loaded. Inr ?printed)
                             else Inr ?printed)"
    by (simp add: IPAdapter_init_weights_def Let_def)
  have printed: "?printed
      = (if size_mismatch (image_proj_params self) (under_prefix ''image_proj.'' w)
            \<or> strict \<and> unmatched (image_proj_params self) (under_prefix ''image_proj.'' w)
         then [WeightMismatch] else [])"
    by (simp add: load_state_dict_def)
  have fatal: "IPAdapter_init_weights self (Some w) strict use_pooled = Inl e \<longleftrightarrow>
      ?subs = Inl e \<or> ((\<forall>e'. ?subs \<noteq> Inl e') \<and> use_pooled \<and> ?pooled = Inl e)" for e
    unfolding run
    by (cases ?subs; cases ?pooled) (auto simp: and_then_def)
  define clash where "clash \<longleftrightarrow> (\<exists>j < length (sub_adapters_params self).
             size_mismatch (sub_adapters_params self ! j)
               (under_prefix (''ip_adapter.'' @ format_03d j @ ''.'') w))"
  have subs_iff: "?subs = Inl e' \<longleftrightarrow> e' = WeightMismatch \<and> clash" for e'
    using load_sub_adapters_Inl [of 0 "sub_adapters_params self" w e']
    by (simp add: clash_def)
  have part1: "IPAdapter_init_weights self (Some w) strict use_pooled = Inl e \<longleftrightarrow>
      e = WeightMismatch
      \<and> (clash
         \<or> use_pooled
           \<and> (size_mismatch (pooled_text_embedding_proj_params self)
                 (under_prefix ''pooled_text_embedding_proj.'' w)
              \<or> strict \<and> unmatched (pooled_text_embedding_proj_params self)
                   (under_prefix ''pooled_text_embedding_proj.'' w)))"
    unfolding fatal load_state_dict_Inl subs_iff by auto
  have part2: "IPAdapter_init_weights self (Some w) strict use_pooled = Inr printed \<longleftrightarrow>
      (\<forall>e. IPAdapter_init_weights self (Some w) strict use_pooled \<noteq> Inl e)
      \<and> printed = ?printed"
    unfolding run
    by (cases ?subs; cases ?pooled) (auto simp: and_then_def)
  show ?thesis using part1 part2 unfolding printed clash_def by blast
qed

text \<open>At the example: the matching weight map loads; with one more key under
  \<open>pooled_text_embedding_proj.\<close> the strict load fails, by the theorem, and the load that
  is not strict succeeds.\<close>

lemma example_weights_load:
  "IPAdapter_init_weights example_parameters (Some example_weights) True True = Inr []
   \<and> IPAdapter_init_weights example_parameters
       (Some ((''pooled_text_embedding_proj.extra'', [1]) # example_weights)) True True
     = Inl WeightMismatch
   \<and> IPAdapter_init_weights example_parameters
       (Some ((''pooled_text_embedding_proj.extra'', [1]) # example_weights)) False True
     = Inr []"
  by code_simp

theorem IPAdapter_init_weights_fatal_witness:
  "unmatched (pooled_text_embedding_proj_params example_parameters)
     (under_prefix ''pooled_text_embedding_proj.''
        ((''pooled_text_embedding_proj.extra'', [1]) # example_weights))
   \<and> IPAdapter_init_weights example_parameters
       (Some ((''pooled_text_embedding_proj.extra'', [1]) # example_weights)) True True
     = Inl WeightMismatch"
proof -
  have bad: "unmatched (pooled_text_embedding_proj_params example_parameters)
     (under_prefix ''pooled_text_embedding_proj.''
        ((''pooled_text_embedding_proj.extra'', [1]) # example_weights))"
    by code_simp
  from IPAdapter_init_weights_fatal [of example_parameters
      "(''pooled_text_embedding_proj.extra'', [1]) # example_weights" True True WeightMismatch]
    bad
  show ?thesis by blast
qed

section \<open>Properties of the constructors\<close>






subsection \<open>SD1IPAdapter\<close>

lemma bind_LayerNorm_bias:
  "bind_call LayerNorm_signature 1 [''normalized_shape'', ''bias'', ''device'', ''dtype'']
     = Some TypeError"
  by code_simp

lemma LayerNorm_call_bias:
  "LayerNorm_call env [''normalized_shape'', ''bias'', ''device'', ''dtype''] ns e b dev dt
     = Inl TypeError"
  unfolding LayerNorm_call_def bind_LayerNorm_bias by (simp add: raise_or_def)

lemma bind_IPAdapter:
  "bind_call IPAdapter_signature 1
     [''target'', ''image_encoder'', ''image_proj'', ''scale'', ''fine_grained'', ''weights'',
      ''strict'', ''use_timestep_embedding'', ''use_pooled_text_embedding'', ''use_bias'',
      ''sequence_length'', ''layernorm_dino'', ''weighted_sum''] = Some TypeError"
  by code_simp

lemma bind_source_calls:
  "bind_call get_sd1_image_proj_signature 5 [] = None"
  "bind_call ImageProjection_signature 1
     [''image_embedding_dim'', ''clip_text_embedding_dim'', ''device'', ''dtype'', ''use_bias'']
     = None"
  "bind_call PerceiverResampler_signature 1
     [''latents_dim'', ''num_attention_layers'', ''num_attention_heads'', ''head_dim'',
      ''num_tokens'', ''input_dim'', ''output_dim'', ''device'', ''dtype'', ''use_bias''] = None"
  "bind_call LatentsToken_signature 3 [''device'', ''dtype''] = None"
  "bind_call PerceiverAttention_signature 1
     [''embedding_dim'', ''head_dim'', ''num_heads'', ''use_bias'', ''device'', ''dtype''] = None"
  by code_simp+

lemma construct_all_returns: "\<forall>c. layer_init env c = None \<Longrightarrow> construct_all env cs = None"
  by (induction cs) auto

lemma ImageProjection_init_raises: "isl (ImageProjection_init env d b dev dt)"
  by (simp add: ImageProjection_init_def LayerNorm_call_bias raise_or_def and_then_def
      split: option.splits)

lemma ImageProjection_init_TypeError:
  "\<forall>c. layer_init env c = None \<Longrightarrow> ImageProjection_init env d b dev dt = Inl TypeError"
  by (simp add: ImageProjection_init_def LayerNorm_call_bias raise_or_def and_then_def
      construct_all_returns)

lemma PerceiverResampler_init_raises: "isl (PerceiverResampler_init env d n out b dev dt)"
  by (simp add: PerceiverResampler_init_def LayerNorm_call_bias raise_or_def and_then_def
      split: option.splits sum.splits)

lemma PerceiverAttention_init_TypeError: "PerceiverAttention_init env d b dev dt = Inl TypeError"
  by (simp add: PerceiverAttention_init_def LayerNorm_call_bias and_then_def)

lemma TransformerLayer_element_TypeError:
  assumes "\<forall>c. layer_init env c = None"
  shows "TransformerLayer_element env d b dev dt = Inl TypeError"
  unfolding TransformerLayer_element_def bind_source_calls
    construct_all_returns [OF assms] PerceiverAttention_init_TypeError
  by (simp add: raise_or_def and_then_def)

lemma PerceiverResampler_init_TypeError:
  assumes "\<forall>c. layer_init env c = None"
  shows "PerceiverResampler_init env d n out b dev dt = Inl TypeError"
proof -
  have "transformer_layers env k d b dev dt = Inr () \<or> transformer_layers env k d b dev dt
      = Inl TypeError" for k
    by (cases k) (simp_all add: TransformerLayer_element_TypeError [OF assms] and_then_def)
  then have "transformer_layers env (nat n) d b dev dt = Inr ()
      \<or> transformer_layers env (nat n) d b dev dt = Inl TypeError" .
  then show ?thesis
  proof
    assume "transformer_layers env (nat n) d b dev dt = Inr ()"
    then show ?thesis
      unfolding PerceiverResampler_init_def bind_source_calls construct_all_returns [OF assms]
        LayerNorm_call_bias
      by (simp add: raise_or_def and_then_def)
  next
    assume "transformer_layers env (nat n) d b dev dt = Inl TypeError"
    then show ?thesis
      unfolding PerceiverResampler_init_def bind_source_calls construct_all_returns [OF assms]
        LayerNorm_call_bias
      by (simp add: raise_or_def and_then_def)
  qed
qed

lemma get_sd1_image_proj_raises: "isl (get_sd1_image_proj env d fg b dev dt)"
  unfolding get_sd1_image_proj_def bind_source_calls
  using ImageProjection_init_raises PerceiverResampler_init_raises
  by (simp add: raise_or_def)

lemma get_sd1_image_proj_TypeError:
  assumes "\<forall>c. layer_init env c = None"
  shows "get_sd1_image_proj env d fg b dev dt = Inl TypeError"
  unfolding get_sd1_image_proj_def bind_source_calls
  by (simp add: raise_or_def ImageProjection_init_TypeError [OF assms]
      PerceiverResampler_init_TypeError [OF assms])

text \<open>
  Claim C9, as stated, has every call fail with \<open>TypeError\<close>. With \<open>fine_grained=True\<close> and
  an image projection that is not a \<open>PerceiverResampler\<close> the assertion of the constructor
  fails first: the call raises \<open>AssertionError\<close>.
\<close>

theorem SD1IPAdapter_init_AssertionError:
  "SD1IPAdapter_init example_environment None None 768 (Some 3) (Some ImageProjection_obj)
     1 True None True False False True False False = Inl AssertionError"
  unfolding SD1IPAdapter_init_def by (simp add: raise_or_def and_then_def)

text \<open>
  Claim C9, amended. Constructing an \<open>SD1IPAdapter\<close> never returns, whatever the arguments
  and whatever the calls outside the sources do: the call \<open>super().__init__\<close> passes the
  keywords \<open>layernorm_dino\<close> and \<open>weighted_sum\<close>, which \<open>IPAdapter.__init__\<close> does not
  accept. When the encoder is given (or the default encoder can be built), a call with an
  image projection raises \<open>AssertionError\<close> if \<open>fine_grained\<close> is set and the projection is
  not a \<open>PerceiverResampler\<close>, and this \<open>TypeError\<close> otherwise. A call without image
  projection raises \<open>TypeError\<close> too when the outside calls return, already while building
  the projection, whose \<open>LayerNorm\<close> calls pass a keyword \<open>bias\<close> that \<open>LayerNorm.__init__\<close>
  does not accept.
\<close>

theorem SD1IPAdapter_init_raises:
  "isl (SD1IPAdapter_init env target_device target_dtype context_dim image_encoder image_proj
          scale fine_grained weights strict use_timestep use_pooled use_bias layernorm_dino
          weighted_sum)
   \<and> ((image_encoder = None \<or> image_encoder = Some 0 \<longrightarrow> CLIPImageEncoderH_init env = None)
       \<longrightarrow>
       (\<forall>given. image_proj = Some given \<longrightarrow>
          SD1IPAdapter_init env target_device target_dtype context_dim image_encoder image_proj
            scale fine_grained weights strict use_timestep use_pooled use_bias layernorm_dino
            weighted_sum
          = (if fine_grained \<and> given \<noteq> PerceiverResampler_obj then Inl AssertionError
             else Inl TypeError))
       \<and> (image_proj = None \<and> ensure_find_CrossAttentionBlock2d env = None
            \<and> (\<forall>c. layer_init env c = None) \<longrightarrow>
          SD1IPAdapter_init env target_device target_dtype context_dim image_encoder image_proj
            scale fine_grained weights strict use_timestep use_pooled use_bias layernorm_dino
            weighted_sum
          = Inl TypeError))"
proof -
  let ?run = "SD1IPAdapter_init env target_device target_dtype context_dim image_encoder
      image_proj scale fine_grained weights strict use_timestep use_pooled use_bias
      layernorm_dino weighted_sum"
  let ?enc = "case image_encoder of None \<Rightarrow> CLIPImageEncoderH_init env
      | Some layers \<Rightarrow> if 0 < layers then None else CLIPImageEncoderH_init env"
  let ?proj = "case image_proj of
      None \<Rightarrow> raise_or (ensure_find_CrossAttentionBlock2d env)
                (get_sd1_image_proj env context_dim fine_grained use_bias
                   target_device target_dtype)
    | Some given \<Rightarrow>
        if fine_grained
        then (if given = PerceiverResampler_obj then Inr given else Inl AssertionError)
        else Inr given"
  have run: "?run = raise_or ?enc (and_then ?proj (\<lambda>p. Inl TypeError))"
    unfolding SD1IPAdapter_init_def bind_IPAdapter bind_source_calls
    by (simp add: raise_or_def Let_def split: option.splits)
  have never: "isl ?run"
    unfolding run by (simp add: raise_or_def and_then_def split: option.splits sum.splits)
  have enc: "?enc = None"
    if "image_encoder = None \<or> image_encoder = Some 0 \<longrightarrow> CLIPImageEncoderH_init env = None"
    using that by (cases image_encoder) auto
  have given: "?run = (if fine_grained \<and> given \<noteq> PerceiverResampler_obj
      then Inl AssertionError else Inl TypeError)"
    if "?enc = None" "image_proj = Some given" for given
    unfolding run using that by (simp add: raise_or_def and_then_def)
  have built: "?run = Inl TypeError"
    if "?enc = None" "image_proj = None" "ensure_find_CrossAttentionBlock2d env = None"
      "\<forall>c. layer_init env c = None"
    unfolding run using that
    by (simp add: raise_or_def and_then_def get_sd1_image_proj_TypeError)
  show ?thesis
  proof (intro conjI impI allI)
    show "isl ?run" by (rule never)
  next
    fix p
    assume a: "image_encoder = None \<or> image_encoder = Some 0
        \<longrightarrow> CLIPImageEncoderH_init env = None"
      and b: "image_proj = Some p"
    show "?run = (if fine_grained \<and> p \<noteq> PerceiverResampler_obj
        then Inl AssertionError else Inl TypeError)"
      by (rule given [OF enc [OF a] b])
  next
    assume a: "image_encoder = None \<or> image_encoder = Some 0
        \<longrightarrow> CLIPImageEncoderH_init env = None"
      and b: "image_proj = None \<and> ensure_find_CrossAttentionBlock2d env = None
            \<and> (\<forall>c. layer_init env c = None)"
    from b have b1: "image_proj = None" and b2: "ensure_find_CrossAttentionBlock2d env = None"
      and b3: "\<forall>c. layer_init env c = None" by simp_all
    show "?run = Inl TypeError"
      by (rule built [OF enc [OF a] b1 b2 b3])
  qed
qed

text \<open>In the example environment: two calls without image projection and two with one raise
  \<open>TypeError\<close>.\<close>

theorem SD1IPAdapter_init_raises_witness:
  "CLIPImageEncoderH_init example_environment = None
   \<and> ensure_find_CrossAttentionBlock2d example_environment = None
   \<and> layer_init example_environment = (\<lambda>c. None)
   \<and> SD1IPAdapter_init example_environment None None 768 None None
        1 False None True False False True False False = Inl TypeError
   \<and> SD1IPAdapter_init example_environment None None 768 (Some 3) None
        1 True None True False False True False False = Inl TypeError
   \<and> SD1IPAdapter_init example_environment None None 768 (Some 3) (Some PerceiverResampler_obj)
        1 True None True False False True False False = Inl TypeError
   \<and> SD1IPAdapter_init example_environment None None 768 (Some 3) (Some Other_module)
        1 False None True False False True False False = Inl TypeError"
proof -
  have env: "CLIPImageEncoderH_init example_environment = None"
    "ensure_find_CrossAttentionBlock2d example_environment = None"
    "layer_init example_environment = (\<lambda>c. None)"
    by (simp_all add: example_environment_def)
  from SD1IPAdapter_init_raises [of example_environment None None 768 None None
      1 False None True False False True False False]
    SD1IPAdapter_init_raises [of example_environment None None 768 "Some 3" None
      1 True None True False False True False False]
    SD1IPAdapter_init_raises [of example_environment None None 768 "Some 3"
      "Some PerceiverResampler_obj" 1 True None True False False True False False]
    SD1IPAdapter_init_raises [of example_environment None None 768 "Some 3"
      "Some Other_module" 1 False None True False False True False False]
    env
  show ?thesis by simp
qed

section \<open>Properties of the image embedding\<close>

lemma pieces_singletons: "pieces (Suc 0) xs = map (\<lambda>r. [r]) xs"
proof (induction xs)
  case Nil
  show ?case by (simp add: pieces.simps)
next
  case (Cons x xs)
  then show ?case by (subst pieces.simps) simp
qed

lemma chunk_rows: "length t = n \<Longrightarrow> 0 < n \<Longrightarrow> chunk n t = map (\<lambda>r. [r]) t"
proof -
  assume a: "length t = n" "0 < n"
  then have "(n + n - 1) div n = 1"
    by (intro div_nat_eqI) auto
  then show ?thesis using a by (simp add: chunk_def pieces_singletons)
qed

lemma all_equal_const: "\<forall>n \<in> set ns. n = d \<Longrightarrow> all_equal ns"
proof -
  assume "\<forall>n \<in> set ns. n = d"
  then have "set (remdups ns) \<subseteq> {d}" by auto
  moreover have "distinct (remdups ns)" by simp
  ultimately have "length (remdups ns) \<le> card {d}"
    by (metis distinct_card card_mono finite.emptyI finite.insertI)
  then show ?thesis by (simp add: all_equal_def)
qed

lemma transpose_no_rows: "transpose (map (\<lambda>r. []) ys) = []"
  by (induction ys) auto

lemma transpose_singletons: "xs \<noteq> [] \<Longrightarrow> transpose (map (\<lambda>r. [r]) xs) = [xs]"
proof -
  assume "xs \<noteq> []"
  then obtain x rest where xs: "xs = x # rest" by (cases xs) auto
  have heads: "concat (map (case_list [] (\<lambda>h t. [h]) \<circ> (\<lambda>r. [r])) rest) = rest"
    by (induction rest) auto
  have tails: "concat (map (case_list [] (\<lambda>h t. [t]) \<circ> (\<lambda>r. [r])) rest)
      = map (\<lambda>r. []) rest"
    by (induction rest) auto
  show ?thesis
    by (simp add: xs heads tails transpose_no_rows)
qed

lemma has_shapeD:
  assumes "has_shape b s d t"
  shows "length t = b" and "\<forall>n \<in> set (map length t). n = s"
    and "\<forall>n \<in> set (concat (map (map length) t)). n = d"
  using assms by (auto simp: has_shape_def list_all_iff)

lemma has_shapeI:
  "length t = b \<Longrightarrow> \<forall>row \<in> set t. length row = s \<and> (\<forall>tok \<in> set row. length tok = d)
     \<Longrightarrow> has_shape b s d t"
  by (simp add: has_shape_def list_all_iff)

lemma length_concat_rows: "\<forall>row \<in> set t. length row = s \<Longrightarrow> length (concat t) = length t * s"
  by (induction t) auto

lemma has_shape_concat:
  assumes "has_shape b s d t"
  shows "has_shape 1 (b * s) d [concat t]"
proof -
  have rows: "\<forall>row \<in> set t. length row = s \<and> (\<forall>tok \<in> set row. length tok = d)"
    and len: "length t = b"
    using assms by (auto simp: has_shape_def list_all_iff)
  then have "length (concat t) = b * s" using length_concat_rows [of t s] by simp
  moreover have "\<forall>tok \<in> set (concat t). length tok = d" using rows by auto
  ultimately show ?thesis by (simp add: has_shape_def list_all_iff)
qed

lemma has_shape_scaled:
  assumes "has_shape b s d t" and "length ws = b"
  shows "has_shape b s d (map2 scale_row ws t)"
proof (rule has_shapeI)
  show "length (map2 scale_row ws t) = b"
    using assms by (simp add: has_shape_def)
  show "\<forall>row \<in> set (map2 scale_row ws t).
      length row = s \<and> (\<forall>tok \<in> set row. length tok = d)"
  proof
    fix row
    assume "row \<in> set (map2 scale_row ws t)"
    then obtain w r where "r \<in> set t" and row: "row = scale_row w r"
      by (auto dest: set_zip_rightD)
    then have "length r = s \<and> (\<forall>tok \<in> set r. length tok = d)"
      using assms(1) by (auto simp: has_shape_def list_all_iff)
    then show "length row = s \<and> (\<forall>tok \<in> set row. length tok = d)"
      by (auto simp: row scale_row_def)
  qed
qed

lemma cat_dim1_rows:
  assumes "has_shape b s d t" and "0 < b"
  shows "cat_dim1 (chunk b t) = Inr [concat t]"
proof -
  note shape = has_shapeD [OF assms(1)]
  have ne: "t \<noteq> []" using shape(1) assms(2) by auto
  have ch: "chunk b t = map (\<lambda>r. [r]) t" using shape(1) assms(2) by (rule chunk_rows)
  have batches: "all_equal (map length (map (\<lambda>r. [r]) t))"
    by (rule all_equal_const [of _ 1]) auto
  have "token_dims (map (\<lambda>r. [r]) t) = concat (map (map length) t)"
    by (induction t) (auto simp: token_dims_def)
  then have dims: "all_equal (token_dims (map (\<lambda>r. [r]) t))"
    using shape(3) by (simp add: all_equal_const [of _ d])
  show ?thesis
    using ne batches dims by (simp add: ch cat_dim1_def transpose_singletons)
qed

lemma cat_dim0_pair:
  assumes "has_shape b1 s d a" and "has_shape b2 s d c"
  shows "cat_dim0 [a, c] = Inr (a @ c)"
proof -
  note sa = has_shapeD [OF assms(1)] and sc = has_shapeD [OF assms(2)]
  have "all_equal (seq_lens [a, c])"
    using sa(2) sc(2) by (intro all_equal_const [of _ s]) (auto simp: seq_lens_def)
  moreover have "all_equal (token_dims [a, c])"
    using sa(3) sc(3) by (intro all_equal_const [of _ d]) (auto simp: token_dims_def)
  ultimately show ?thesis by (simp add: cat_dim0_def)
qed

lemma joined:
  assumes "has_shape b s d n" and "has_shape b s d c"
  shows "and_then
       (if 1 < b \<and> concat_batches
        then and_then (cat_dim1 (chunk b n)) (\<lambda>n'.
             and_then (cat_dim1 (chunk b c)) (\<lambda>c'. Inr (n', c')))
        else Inr (n, c))
       (\<lambda>(n', c'). cat_dim0 [n', c'])
     = Inr (if 1 < b \<and> concat_batches then [concat n] @ [concat c] else n @ c)"
proof (cases "1 < b \<and> concat_batches")
  case True
  then have pos: "0 < b" by simp
  show ?thesis
    using True cat_dim1_rows [OF assms(1) pos] cat_dim1_rows [OF assms(2) pos]
      cat_dim0_pair [OF has_shape_concat [OF assms(1)] has_shape_concat [OF assms(2)]]
    by (simp add: and_then_def)
next
  case False
  then show ?thesis
    using cat_dim0_pair [OF assms] by (auto simp: and_then_def)
qed

text \<open>
  Claim C8. For every image prompt, be it a tensor, one image or a list of images, from
  which the image batch is obtained, and with the two branches that the encoder and the
  projection give of one shape, a row for each image of the batch,
  \<open>compute_image_embedding\<close> returns the negative embedding followed by the conditional
  embedding. The weights, which must be as many as the images (\<open>AssertionError\<close>
  otherwise), multiply the rows of the conditional branch only, and only when one of them
  differs from 1. For a batch of more than one image with \<open>concat_batches\<close>, the rows of
  each branch are first laid one after the other along the sequence into a single row.
\<close>

theorem compute_image_embedding_result:
  assumes "prompt_tensor self image_prompt image_size = Inr x"
    and "compute_image_embedding_pair self x div_factor = (negative, conditional)"
    and "has_shape (shape0 self x) s d negative"
    and "has_shape (shape0 self x) s d conditional"
  shows "compute_image_embedding self image_prompt weights div_factor concat_batches image_size
    = (let batch_size = shape0 self x;
           join = (\<lambda>weighted. if 1 < batch_size \<and> concat_batches
                               then [concat negative] @ [concat weighted]
                               else negative @ weighted)
       in case weights of
            None \<Rightarrow> Inr (join conditional)
          | Some ws \<Rightarrow>
              if length ws \<noteq> batch_size then Inl AssertionError
              else if list_ex (\<lambda>weight. weight \<noteq> 1) ws
                then Inr (join (map2 scale_row ws conditional))
              else Inr (join conditional))"
proof -
  let ?b = "shape0 self x"
  have start: "compute_image_embedding self image_prompt weights div_factor concat_batches
        image_size
      = and_then
          (case weights of
             None \<Rightarrow> Inr conditional
           | Some ws \<Rightarrow>
               if length ws \<noteq> ?b then Inl AssertionError
               else if list_ex (\<lambda>weight. weight \<noteq> 1) ws then mul_weights ws conditional
               else Inr conditional)
          (\<lambda>c. and_then
             (if 1 < ?b \<and> concat_batches
              then and_then (cat_dim1 (chunk ?b negative)) (\<lambda>n'.
                   and_then (cat_dim1 (chunk ?b c)) (\<lambda>c'. Inr (n', c')))
              else Inr (negative, c))
             (\<lambda>(n', c'). cat_dim0 [n', c']))"
    by (simp add: compute_image_embedding_def assms(1,2) and_then_def Let_def)
  show ?thesis
  proof (cases weights)
    case None
    then show ?thesis
      unfolding start using joined [OF assms(3,4)] by (simp add: and_then_def Let_def)
  next
    case (Some ws)
    show ?thesis
    proof (cases "length ws \<noteq> ?b")
      case True
      then show ?thesis unfolding start by (simp add: Some and_then_def Let_def)
    next
      case False
      then have len: "length ws = ?b" by simp
      show ?thesis
      proof (cases "list_ex (\<lambda>weight. weight \<noteq> 1) ws")
        case True
        have "length ws = length conditional"
          using len has_shapeD(1) [OF assms(4)] by simp
        then have mul: "mul_weights ws conditional = Inr (map2 scale_row ws conditional)"
          by (simp add: mul_weights_def)
        show ?thesis
          unfolding start
          using True len mul joined [OF assms(3) has_shape_scaled [OF assms(4) len]]
          by (simp add: Some and_then_def Let_def)
      next
        case no_weight: False
        then show ?thesis
          unfolding start using len joined [OF assms(3,4)]
          by (simp add: Some and_then_def Let_def)
      qed
    qed
  qed
qed

text \<open>At the example embedder, for a list of two images with the weights 1 and 3: the
  hypotheses hold, the second row of the conditional branch is tripled, the rows are
  joined along the sequence when \<open>concat_batches\<close> is set, and a single weight for two
  images fails the assertion.\<close>

theorem compute_image_embedding_result_witness:
  "prompt_tensor example_embedder (Images_prompt [2, 4]) (224, 224) = Inr [2, 4]
   \<and> compute_image_embedding_pair example_embedder [2, 4] 1
       = ([[[0], [1]], [[0], [1]]], [[[2], [3]], [[4], [5]]])
   \<and> has_shape (shape0 example_embedder [2, 4]) 2 1 [[[0], [1]], [[0], [1]]]
   \<and> has_shape (shape0 example_embedder [2, 4]) 2 1 [[[2], [3]], [[4], [5]]]
   \<and> compute_image_embedding example_embedder (Images_prompt [2, 4]) (Some [1, 3]) 1 True
         (224, 224)
       = Inr [[[0], [1], [0], [1]], [[2], [3], [12], [15]]]
   \<and> compute_image_embedding example_embedder (Images_prompt [2, 4]) (Some [1, 3]) 1 False
         (224, 224)
       = Inr [[[0], [1]], [[0], [1]], [[2], [3]], [[12], [15]]]
   \<and> compute_image_embedding example_embedder (Images_prompt [2, 4]) (Some [1]) 1 True
         (224, 224)
       = Inl AssertionError"
proof -
  have x: "prompt_tensor example_embedder (Images_prompt [2, 4]) (224, 224) = Inr [2, 4]"
    by (simp add: prompt_tensor_def example_embedder_def)
  have pair: "compute_image_embedding_pair example_embedder [2, 4] 1
       = ([[[0], [1]], [[0], [1]]], [[[2], [3]], [[4], [5]]])"
    by (simp add: compute_image_embedding_pair_def image_encoder_of_def example_embedder_def)
  have b: "shape0 example_embedder [2, 4] = 2"
    by (simp add: example_embedder_def)
  have neg: "has_shape (shape0 example_embedder [2, 4]) 2 1 [[[0], [1]], [[0], [1]]]"
    and cond: "has_shape (shape0 example_embedder [2, 4]) 2 1 [[[2], [3]], [[4], [5]]]"
    by (simp_all add: b has_shape_def)
  from compute_image_embedding_result [OF x pair neg cond, of "Some [1, 3]" True]
    compute_image_embedding_result [OF x pair neg cond, of "Some [1, 3]" False]
    compute_image_embedding_result [OF x pair neg cond, of "Some [1]" True]
    x pair neg cond
  show ?thesis by (simp add: b scale_row_def)
qed

end
